theory Spec2Isabelle
  imports Complex_Main
begin

section \<open>The docking worker of istar: idock/src/main.cpp\<close>

text \<open>
  The worker is one long \<^verbatim>\<open>main\<close>. Its blocks are embedded one by one, in the order
  of the source, and composed into the per-ligand step and the job. A value of the
  scalar type \<^verbatim>\<open>fl\<close> is read as the real number it denotes, \<^verbatim>\<open>size_t\<close> as a natural
  number (no computation of the worker comes near \<open>2 ^ 64\<close>) and \<^verbatim>\<open>int64_t\<close> as an
  integer. Where the code compares computed values of \<^verbatim>\<open>fl\<close> with \<^verbatim>\<open>==\<close>, in the
  distance samples, the operations are those of the format: each gives the exact result
  rounded to the significand of \<^verbatim>\<open>fl\<close>. Reading a container out of its bounds, which is
  undefined in C++, and a failed \<^verbatim>\<open>BOOST_ASSERT\<close> are errors of the model.
\<close>

type_synonym fl = real

datatype error = OutOfBounds | OutOfRange | AssertionFailed

subsection \<open>Containers\<close>

text \<open>\<^verbatim>\<open>front()\<close> and \<^verbatim>\<open>back()\<close> of a vector; the vector must not be empty.\<close>

definition vector_front :: "'a list \<Rightarrow> error + 'a" where
  "vector_front xs = (case xs of [] \<Rightarrow> Inl OutOfBounds | x # _ \<Rightarrow> Inr x)"

definition vector_back :: "'a list \<Rightarrow> error + 'a" where
  "vector_back xs = (if xs = [] then Inl OutOfBounds else Inr (last xs))"

subsection \<open>The thread pool\<close>

text \<open>
  A task is named by what it was bound to: the pair of atom types of a scoring function
  task, the batch of atom types and the x index of a grid map task, the index of a Monte
  Carlo task.
\<close>

datatype task = SfTask nat nat | GmTask "nat list" nat | McTask nat

datatype event = Dispatched task | Completed task

text \<open>
  Modelled from the spec: the class \<^verbatim>\<open>thread_pool\<close> (thread_pool.hpp) and the futures of
  its tasks are not among the sources. The spec gives the interface seen by the main
  thread: \<^verbatim>\<open>run(batch)\<close> enqueues a batch and returns immediately, \<^verbatim>\<open>get()\<close> on the
  future of a task blocks until that task has finished, and \<^verbatim>\<open>sync()\<close> blocks until all
  dispatched tasks have finished. The pool is the list of the tasks dispatched and not yet
  known to have finished, with the history of both kinds of events; a task is recorded as
  completed at the latest moment the main thread allows for it, which is when the blocking
  call returns.
\<close>

record thread_pool =
  pending :: "task list"
  events :: "event list"

text \<open>Modelled from the spec: a pool to which nothing has been dispatched.\<close>

definition new_thread_pool :: thread_pool where
  "new_thread_pool = \<lparr>pending = [], events = []\<rparr>"

text \<open>Modelled from the spec: \<^verbatim>\<open>run(batch)\<close> enqueues the batch and returns.\<close>

definition tp_run :: "task list \<Rightarrow> thread_pool \<Rightarrow> thread_pool" where
  "tp_run ts tp = \<lparr>pending = pending tp @ ts, events = events tp @ map Dispatched ts\<rparr>"

text \<open>
  Modelled from the spec: \<^verbatim>\<open>get()\<close> on the future of a task returns when the task has
  finished.
\<close>

definition future_get :: "task \<Rightarrow> thread_pool \<Rightarrow> thread_pool" where
  "future_get t tp =
     (if t \<in> set (pending tp)
      then \<lparr>pending = remove1 t (pending tp), events = events tp @ [Completed t]\<rparr>
      else tp)"

text \<open>
  Modelled from the spec: \<^verbatim>\<open>sync()\<close> returns when all dispatched tasks have finished.
\<close>

definition tp_sync :: "thread_pool \<Rightarrow> thread_pool" where
  "tp_sync tp = \<lparr>pending = [], events = events tp @ map Completed (pending tp)\<rparr>"

subsection \<open>Precalculation of the scoring function (lines 122 to 150)\<close>

text \<open>
  The constants \<^verbatim>\<open>Num_Samples\<close>, \<^verbatim>\<open>Factor_Inverse\<close> and \<^verbatim>\<open>Cutoff\<close> of
  \<^verbatim>\<open>scoring_function\<close> and \<^verbatim>\<open>XS_TYPE_SIZE\<close> are declared outside the sources; they are
  parameters.
\<close>

text \<open>
  The arithmetic of \<^verbatim>\<open>fl\<close>, a binary floating-point format of IEEE 754 with a
  significand of \<open>p\<close> bits (24 for \<^verbatim>\<open>float\<close>, 53 for \<^verbatim>\<open>double\<close>): an operation returns
  the exact result rounded to the nearest value of the format, a tie going to the value
  with the even significand. The exponent is not bounded here: overflow, subnormal numbers
  and NaN, which the samples do not meet, are outside.
\<close>

definition round_even :: "real \<Rightarrow> int" where
  "round_even y =
     (let f = \<lfloor>y\<rfloor> in
      if y - of_int f < 1 / 2 then f
      else if 1 / 2 < y - of_int f then f + 1
      else if even f then f else f + 1)"

definition fl_round :: "nat \<Rightarrow> real \<Rightarrow> fl" where
  "fl_round p x =
     (if x = 0 then 0
      else let u = 2 powi (\<lfloor>log 2 \<bar>x\<bar>\<rfloor> + 1 - int p) in of_int (round_even (x / u)) * u)"

text \<open>
  Lines 127 to 131. In \<^verbatim>\<open>sqrt(i * Factor_Inverse)\<close> the index is converted to \<^verbatim>\<open>fl\<close>,
  the product is a product of \<^verbatim>\<open>fl\<close> and the square root is the correctly rounded one
  of the library.
\<close>

definition rs :: "nat \<Rightarrow> nat \<Rightarrow> fl \<Rightarrow> fl list" where
  "rs p Num_Samples Factor_Inverse =
     map (\<lambda>i. fl_round p (sqrt (fl_round p (fl_round p (real i) * Factor_Inverse))))
       [0..<Num_Samples]"

text \<open>The two assertions on \<^verbatim>\<open>rs.front()\<close> and \<^verbatim>\<open>rs.back()\<close>, lines 132 and 133.\<close>

definition rs_assertions :: "nat \<Rightarrow> nat \<Rightarrow> fl \<Rightarrow> fl \<Rightarrow> bool" where
  "rs_assertions p Num_Samples Factor_Inverse Cutoff \<longleftrightarrow>
     vector_front (rs p Num_Samples Factor_Inverse) = Inr 0 \<and>
     vector_back (rs p Num_Samples Factor_Inverse) = Inr Cutoff"

definition num_sf_tasks :: "nat \<Rightarrow> nat" where
  "num_sf_tasks XS_TYPE_SIZE = ((XS_TYPE_SIZE + 1) * XS_TYPE_SIZE) div 2"

text \<open>The two nested loops over \<open>t1\<close> and \<open>t2\<close>, in the order of their \<^verbatim>\<open>push_back\<close>.\<close>

definition sf_tasks :: "nat \<Rightarrow> task list" where
  "sf_tasks XS_TYPE_SIZE =
     concat (map (\<lambda>t1. map (\<lambda>t2. SfTask t1 t2) [t1..<XS_TYPE_SIZE]) [0..<XS_TYPE_SIZE])"

text \<open>
  The block of lines 125 to 150: the samples and the two assertions on them, then the
  tasks, the assertion on their number, the run and the sync. The assertions are the
  checked ones of a build without \<^verbatim>\<open>NDEBUG\<close>: one that fails stops the program before any
  task is dispatched.
\<close>

definition precalculate_scoring_function ::
  "nat \<Rightarrow> nat \<Rightarrow> fl \<Rightarrow> fl \<Rightarrow> nat \<Rightarrow> thread_pool \<Rightarrow> error + thread_pool" where
  "precalculate_scoring_function p Num_Samples Factor_Inverse Cutoff XS_TYPE_SIZE tp =
     (let samples = rs p Num_Samples Factor_Inverse in
      case vector_front samples of
        Inl e \<Rightarrow> Inl e
      | Inr first \<Rightarrow>
          if first \<noteq> 0 then Inl AssertionFailed
          else
            (case vector_back samples of
               Inl e \<Rightarrow> Inl e
             | Inr final \<Rightarrow>
                 if final \<noteq> Cutoff then Inl AssertionFailed
                 else
                   (let ts = sf_tasks XS_TYPE_SIZE in
                    if length ts \<noteq> num_sf_tasks XS_TYPE_SIZE then Inl AssertionFailed
                    else Inr (tp_sync (tp_run ts tp)))))"

subsection \<open>Filter bounds of a job (lines 92 to 109 and 196 to 213)\<close>

record defaults =
  default_mwt_lb :: fl
  default_mwt_ub :: fl
  default_logp_lb :: fl
  default_logp_ub :: fl
  default_ad_lb :: fl
  default_ad_ub :: fl
  default_pd_lb :: fl
  default_pd_ub :: fl
  default_hbd_lb :: nat
  default_hbd_ub :: nat
  default_hba_lb :: nat
  default_hba_ub :: nat
  default_tpsa_lb :: nat
  default_tpsa_ub :: nat
  default_charge_lb :: int
  default_charge_ub :: int
  default_nrb_lb :: nat
  default_nrb_ub :: nat

definition main_defaults :: defaults where
  "main_defaults =
     \<lparr>default_mwt_lb = 400, default_mwt_ub = 500,
      default_logp_lb = - 1, default_logp_ub = 6,
      default_ad_lb = - 50, default_ad_ub = 50,
      default_pd_lb = - 150, default_pd_ub = 0,
      default_hbd_lb = 1, default_hbd_ub = 6,
      default_hba_lb = 1, default_hba_ub = 10,
      default_tpsa_lb = 20, default_tpsa_ub = 80,
      default_charge_lb = 0, default_charge_ub = 0,
      default_nrb_lb = 2, default_nrb_ub = 9\<rparr>"

text \<open>
  The numeric fields of the job document \<^verbatim>\<open>p\<close>: \<^verbatim>\<open>p[k].ok()\<close> is \<open>p k \<noteq> None\<close> and
  \<^verbatim>\<open>p[k].Double()\<close> is the value.
\<close>

type_synonym job_document = "string \<rightharpoonup> real"

definition ok_or :: "job_document \<Rightarrow> string \<Rightarrow> real \<Rightarrow> real" where
  "ok_or p k d = (case p k of Some v \<Rightarrow> v | None \<Rightarrow> d)"

record bounds =
  mwt_lb :: real
  mwt_ub :: real
  logp_lb :: real
  logp_ub :: real
  ad_lb :: real
  ad_ub :: real
  pd_lb :: real
  pd_ub :: real
  hbd_lb :: real
  hbd_ub :: real
  hba_lb :: real
  hba_ub :: real
  tpsa_lb :: real
  tpsa_ub :: real
  charge_lb :: real
  charge_ub :: real
  nrb_lb :: real
  nrb_ub :: real

definition job_bounds :: "defaults \<Rightarrow> job_document \<Rightarrow> bounds" where
  "job_bounds D p =
     \<lparr>mwt_lb = ok_or p ''mwt_lb'' (default_mwt_lb D),
      mwt_ub = ok_or p ''mwt_ub'' (default_mwt_ub D),
      logp_lb = ok_or p ''logp_lb'' (default_logp_lb D),
      logp_ub = ok_or p ''logp_ub'' (default_logp_ub D),
      ad_lb = ok_or p ''ad_lb'' (default_ad_lb D),
      ad_ub = ok_or p ''ad_ub'' (default_ad_ub D),
      pd_lb = ok_or p ''pd_lb'' (default_pd_lb D),
      pd_ub = ok_or p ''pd_ub'' (default_pd_ub D),
      hbd_lb = ok_or p ''hbd_lb'' (real (default_hbd_lb D)),
      hbd_ub = ok_or p ''hbd_ub'' (real (default_hbd_ub D)),
      hba_lb = ok_or p ''hba_lb'' (real (default_hba_lb D)),
      hba_ub = ok_or p ''hba_ub'' (real (default_hba_ub D)),
      tpsa_lb = ok_or p ''tpsa_lb'' (real (default_tpsa_lb D)),
      tpsa_ub = ok_or p ''tpsa_ub'' (real (default_tpsa_ub D)),
      charge_lb = ok_or p ''charge_lb'' (real (default_nrb_lb D)),
      charge_ub = ok_or p ''charge_ub'' (real (default_nrb_ub D)),
      nrb_lb = ok_or p ''nrb_lb'' (real (default_nrb_lb D)),
      nrb_ub = ok_or p ''nrb_ub'' (real (default_nrb_ub D))\<rparr>"

subsection \<open>The slice table (lines 215 to 219)\<close>

definition slices :: "nat list" where
  "slices =
     [0, 121712, 243424, 365136, 486848, 608560, 730272, 851984, 973696, 1095408,
      1217120, 1338832, 1460544, 1582256, 1703968, 1825680, 1947392, 2069104, 2190816,
      2312528, 2434240, 2555952, 2677664, 2799376, 2921088, 3042800, 3164512, 3286224,
      3407936, 3529648, 3651360, 3773072, 3894784, 4016496, 4138208, 4259920, 4381632,
      4503344, 4625056, 4746768, 4868480, 4990192, 5111904, 5233616, 5355328, 5477040,
      5598752, 5720464, 5842176, 5963888, 6085600, 6207312, 6329024, 6450736, 6572448,
      6694160, 6815872, 6937584, 7059296, 7181008, 7302720, 7424432, 7546144, 7667856,
      7789568, 7911280, 8032992, 8154704, 8276416, 8398128, 8519840, 8641552, 8763264,
      8884976, 9006688, 9128400, 9250112, 9371824, 9493536, 9615248, 9736960, 9858672,
      9980384, 10102096, 10223808, 10345520, 10467232, 10588944, 10710655, 10832366,
      10954077, 11075788, 11197499, 11319210, 11440921, 11562632, 11684343, 11806054,
      11927765, 12049476, 12171187]"

text \<open>\<^verbatim>\<open>slices[k]\<close>: the array has 101 elements, and an index beyond them is out of bounds.\<close>

definition slices_at :: "nat \<Rightarrow> error + nat" where
  "slices_at k = (if k < length slices then Inr (slices ! k) else Inl OutOfBounds)"

text \<open>\<^verbatim>\<open>start_lig\<close> and \<^verbatim>\<open>end_lig\<close> of the slice \<open>s\<close>.\<close>

definition slice_range :: "nat \<Rightarrow> error + nat \<times> nat" where
  "slice_range s =
     (case slices_at s of
        Inl e \<Rightarrow> Inl e
      | Inr start_lig \<Rightarrow>
          (case slices_at (s + 1) of
             Inl e \<Rightarrow> Inl e
           | Inr end_lig \<Rightarrow> Inr (start_lig, end_lig)))"

subsection \<open>The descriptor line of a ligand (lines 310 to 324)\<close>

text \<open>
  Modelled from the spec: \<^verbatim>\<open>right_cast\<close> is not among the sources. The spec gives the
  byte columns the calls read: the call with \<open>(21, 28)\<close> reads the columns 22 to 28,
  counted from 1 and inclusive, and so on. So \<^verbatim>\<open>right_cast<T>(line, i, j)\<close> converts the
  \<open>j - i\<close> characters that follow the first \<open>i\<close> characters of the line. The conversion of
  the text to \<open>T\<close> is a parameter.
\<close>

definition right_text :: "string \<Rightarrow> nat \<Rightarrow> nat \<Rightarrow> string" where
  "right_text line i j = take (j - i) (drop i line)"

text \<open>
  Modelled from the spec: \<^verbatim>\<open>right_cast<T>(line, i, j)\<close>, the conversion applied to the
  bytes it reads.
\<close>

definition right_cast :: "(string \<Rightarrow> 'a) \<Rightarrow> string \<Rightarrow> nat \<Rightarrow> nat \<Rightarrow> 'a" where
  "right_cast cast line i j = cast (right_text line i j)"

text \<open>\<^verbatim>\<open>std::string::substr(pos, n)\<close> throws \<^verbatim>\<open>out_of_range\<close> when \<open>pos\<close> exceeds the size.\<close>

definition substr :: "string \<Rightarrow> nat \<Rightarrow> nat \<Rightarrow> error + string" where
  "substr s pos n = (if length s < pos then Inl OutOfRange else Inr (take n (drop pos s)))"

record descriptors =
  mwt :: fl
  logp :: fl
  ad :: fl
  pd :: fl
  hbd :: nat
  hba :: nat
  tpsa :: nat
  charge :: int
  nrb :: nat

text \<open>The three instances of the conversion used by \<^verbatim>\<open>main\<close>.\<close>

record casts =
  cast_fl :: "string \<Rightarrow> fl"
  cast_size_t :: "string \<Rightarrow> nat"
  cast_int64 :: "string \<Rightarrow> int"

definition read_descriptors :: "casts \<Rightarrow> string \<Rightarrow> descriptors" where
  "read_descriptors c line =
     \<lparr>mwt = right_cast (cast_fl c) line 21 28,
      logp = right_cast (cast_fl c) line 30 37,
      ad = right_cast (cast_fl c) line 39 46,
      pd = right_cast (cast_fl c) line 48 55,
      hbd = right_cast (cast_size_t c) line 57 59,
      hba = right_cast (cast_size_t c) line 61 63,
      tpsa = right_cast (cast_size_t c) line 65 67,
      charge = right_cast (cast_int64 c) line 69 71,
      nrb = right_cast (cast_size_t c) line 73 75\<rparr>"

definition zinc_id :: "string \<Rightarrow> error + string" where
  "zinc_id line = substr line 10 8"

text \<open>The condition of line 321, before its negation.\<close>

definition passes_filters :: "bounds \<Rightarrow> descriptors \<Rightarrow> bool" where
  "passes_filters B d \<longleftrightarrow>
     mwt_lb B \<le> mwt d \<and> mwt d \<le> mwt_ub B \<and>
     logp_lb B \<le> logp d \<and> logp d \<le> logp_ub B \<and>
     ad_lb B \<le> ad d \<and> ad d \<le> ad_ub B \<and>
     pd_lb B \<le> pd d \<and> pd d \<le> pd_ub B \<and>
     hbd_lb B \<le> real (hbd d) \<and> real (hbd d) \<le> hbd_ub B \<and>
     hba_lb B \<le> real (hba d) \<and> real (hba d) \<le> hba_ub B \<and>
     tpsa_lb B \<le> real (tpsa d) \<and> real (tpsa d) \<le> tpsa_ub B \<and>
     charge_lb B \<le> real_of_int (charge d) \<and> real_of_int (charge d) \<le> charge_ub B \<and>
     nrb_lb B \<le> real (nrb d) \<and> real (nrb d) \<le> nrb_ub B"

subsection \<open>Grid maps\<close>

text \<open>
  Modelled from the spec: \<^verbatim>\<open>array3d\<close> is not among the sources. The spec makes
  "initialized" and "not initialized" first-class states of a grid map; an initialized map
  has its dimensions and its cells, and \<^verbatim>\<open>resize\<close> makes a map initialized, zero-filled
  and of the given dimensions (the cells a vector already holds are kept).
\<close>

datatype array3d = Uninitialized | Initialized "nat \<times> nat \<times> nat" "fl list"

text \<open>Modelled from the spec: \<^verbatim>\<open>initialized()\<close>, the state of the map.\<close>

fun initialized :: "array3d \<Rightarrow> bool" where
  "initialized Uninitialized = False"
| "initialized (Initialized n cells) = True"

text \<open>
  Modelled from the spec: \<^verbatim>\<open>resize(n)\<close>, after which the map is initialized, of the
  dimensions \<open>n\<close>, and zero where it had no cell.
\<close>

fun resize :: "nat \<times> nat \<times> nat \<Rightarrow> array3d \<Rightarrow> array3d" where
  "resize (n0, n1, n2) Uninitialized = Initialized (n0, n1, n2) (replicate (n0 * n1 * n2) 0)"
| "resize (n0, n1, n2) (Initialized m cells) =
     Initialized (n0, n1, n2)
       (take (n0 * n1 * n2) cells @ replicate (n0 * n1 * n2 - length cells) 0)"

text \<open>
  Modelled from the spec: \<^verbatim>\<open>grid_map_task\<close> is not among the sources. By the spec the
  task of index \<open>x\<close> adds energies into the cells of \<^verbatim>\<open>grid_maps[t]\<close> for each \<open>t\<close> of
  \<^verbatim>\<open>atom_types_to_populate\<close>, and writes to no other grid map. What it adds to the cells
  is the parameter \<open>slab\<close>. The tasks of a batch write disjoint slabs, so the model
  runs them in the order of their indices.
\<close>

fun populate :: "(fl list \<Rightarrow> fl list) \<Rightarrow> array3d \<Rightarrow> array3d" where
  "populate g Uninitialized = Uninitialized"
| "populate g (Initialized n cells) = Initialized n (g cells)"

text \<open>
  Modelled from the spec: \<^verbatim>\<open>grid_map_task\<close> for the index \<open>x\<close>, over the atom types of
  its batch in their order.
\<close>

definition grid_map_task ::
  "(nat \<Rightarrow> nat \<Rightarrow> fl list \<Rightarrow> fl list) \<Rightarrow> nat list \<Rightarrow> nat \<Rightarrow> array3d list \<Rightarrow> array3d list" where
  "grid_map_task slab atom_types_to_populate x gms =
     fold (\<lambda>t g. if t < length g then g[t := populate (slab t x) (g ! t)] else g)
       atom_types_to_populate gms"

text \<open>
  Lines 118 to 161: the worker creates its thread pool, precalculates the scoring function
  and creates the vector of empty grid maps; then it fetches jobs.
\<close>

definition startup ::
  "nat \<Rightarrow> nat \<Rightarrow> fl \<Rightarrow> fl \<Rightarrow> nat \<Rightarrow> error + array3d list \<times> thread_pool" where
  "startup p Num_Samples Factor_Inverse Cutoff XS_TYPE_SIZE =
     (case precalculate_scoring_function p Num_Samples Factor_Inverse Cutoff XS_TYPE_SIZE
             new_thread_pool of
        Inl e \<Rightarrow> Inl e
      | Inr tp1 \<Rightarrow> Inr (replicate XS_TYPE_SIZE Uninitialized, tp1))"

subsection \<open>Ligands, results and the output stream\<close>

text \<open>What \<^verbatim>\<open>main\<close> reads of a ligand.\<close>

record ligand =
  atom_types :: "nat list"
  num_heavy_atoms :: nat
  flexibility_penalty_factor :: fl

text \<open>The fields \<^verbatim>\<open>f\<close> and \<^verbatim>\<open>e_nd\<close> of a result; its conformation is not read here.\<close>

record result =
  result_f :: fl
  result_e_nd :: fl

datatype floatfield = Default_Notation | Fixed | Scientific

record ofstream =
  written :: string
  floatfield :: floatfield
  precision :: nat

definition ofstream_open :: ofstream where
  "ofstream_open = \<lparr>written = [], floatfield = Default_Notation, precision = 6\<rparr>"

definition setf_fixed :: "ofstream \<Rightarrow> ofstream" where
  "setf_fixed os = os\<lparr>floatfield := Fixed\<rparr>"

definition setprecision :: "nat \<Rightarrow> ofstream \<Rightarrow> ofstream" where
  "setprecision n os = os\<lparr>precision := n\<rparr>"

definition put :: "string \<Rightarrow> ofstream \<Rightarrow> ofstream" where
  "put s os = os\<lparr>written := written os @ s\<rparr>"

text \<open>
  \<^verbatim>\<open>operator<<\<close> for a \<^verbatim>\<open>fl\<close>: the digits are those of the standard library, a parameter
  that is given the notation and the precision of the stream.
\<close>

definition put_fl :: "(floatfield \<Rightarrow> nat \<Rightarrow> fl \<Rightarrow> string) \<Rightarrow> fl \<Rightarrow> ofstream \<Rightarrow> ofstream" where
  "put_fl digits v os = os\<lparr>written := written os @ digits (floatfield os) (precision os) v\<rparr>"

subsection \<open>What the worker is given\<close>

text \<open>
  The code \<^verbatim>\<open>main\<close> calls and the data it reads, as far as they are not among the
  sources: the number of atom types, the probes of the box of the job, the first line
  of the record of each ligand of the library (found through the header file), the
  conversions of \<^verbatim>\<open>right_cast\<close>, the constructor of \<^verbatim>\<open>ligand\<close>, what a grid map task
  adds to the cells, what each Monte Carlo task of each ligand leaves in its result
  container, \<^verbatim>\<open>add_to_result_container\<close>, and the digits written for a number.
  \<open>destroyed_e_nd\<close> is what the storage of a destroyed result yields when \<^verbatim>\<open>e_nd\<close>
  is read from it, for each ligand.
\<close>

record world =
  XS_TYPE_SIZE :: nat
  num_probes :: "nat \<times> nat \<times> nat"
  ligand_line :: "nat \<Rightarrow> string"
  conversions :: casts
  parse_ligand :: "string \<Rightarrow> ligand"
  slab :: "nat \<Rightarrow> nat \<Rightarrow> fl list \<Rightarrow> fl list"
  task_results :: "nat \<Rightarrow> nat \<Rightarrow> result list"
  add_to_result_container :: "result list \<Rightarrow> result \<Rightarrow> fl \<Rightarrow> result list"
  destroyed_e_nd :: "nat \<Rightarrow> fl"
  fl_digits :: "floatfield \<Rightarrow> nat \<Rightarrow> fl \<Rightarrow> string"

definition num_mc_tasks :: nat where
  "num_mc_tasks = 32"

definition max_conformations :: nat where
  "max_conformations = 100"

text \<open>
  The grid maps and the thread pool live as long as the process; the output stream
  \<^verbatim>\<open>csv\<close> is opened by each job.
\<close>

record state =
  grid_maps :: "array3d list"
  tp :: thread_pool
  csv :: ofstream

subsection \<open>Grid maps on the fly (lines 329 to 368)\<close>

text \<open>
  The containers \<^verbatim>\<open>atom_types_to_populate\<close>, \<^verbatim>\<open>gm_tasks\<close>, \<^verbatim>\<open>mc_tasks\<close>,
  \<^verbatim>\<open>result_containers[i]\<close> and \<^verbatim>\<open>results\<close> are declared before the loop over the
  ligands and are empty whenever a ligand is reached: each is cleared before the step
  that filled it ends. So the assertions of lines 330, 349, 371, 374 and 382 hold, and
  the containers are local to the step here.

  The loop over the atom types of the ligand, with the grid maps and
  \<^verbatim>\<open>atom_types_to_populate\<close> as it goes. \<^verbatim>\<open>grid_maps\<close> is a vector of
  \<^verbatim>\<open>XS_TYPE_SIZE\<close> maps.
\<close>

fun atom_types_loop ::
  "nat \<Rightarrow> nat \<times> nat \<times> nat \<Rightarrow> nat list \<Rightarrow> array3d list \<Rightarrow> nat list
     \<Rightarrow> error + array3d list \<times> nat list" where
  "atom_types_loop XS n [] gms atom_types_to_populate = Inr (gms, atom_types_to_populate)"
| "atom_types_loop XS n (t # ts) gms atom_types_to_populate =
     (if \<not> t < XS then Inl AssertionFailed
      else if \<not> t < length gms then Inl OutOfBounds
      else if initialized (gms ! t) then atom_types_loop XS n ts gms atom_types_to_populate
      else atom_types_loop XS n ts (gms[t := resize n (gms ! t)]) (atom_types_to_populate @ [t]))"

text \<open>
  One task for each \<open>x\<close> below \<^verbatim>\<open>num_gm_tasks\<close>, which is \<^verbatim>\<open>b.num_probes[0]\<close>. The
  tasks are run, the future of each is gotten, and the pool is synced; an exception that
  a task would throw through its future ends the program and is not part of the model.
\<close>

definition gm_tasks :: "nat \<Rightarrow> nat list \<Rightarrow> task list" where
  "gm_tasks num_gm_tasks atom_types_to_populate =
     map (GmTask atom_types_to_populate) [0..<num_gm_tasks]"

definition create_grid_maps :: "world \<Rightarrow> ligand \<Rightarrow> state \<Rightarrow> error + state" where
  "create_grid_maps w lig st =
     (case atom_types_loop (XS_TYPE_SIZE w) (num_probes w) (atom_types lig) (grid_maps st) [] of
        Inl e \<Rightarrow> Inl e
      | Inr (gms, atom_types_to_populate) \<Rightarrow>
          if atom_types_to_populate = [] then Inr (st\<lparr>grid_maps := gms\<rparr>)
          else
            let num_gm_tasks = fst (num_probes w);
                ts = gm_tasks num_gm_tasks atom_types_to_populate;
                tp1 = tp_run ts (tp st);
                tp2 = fold future_get ts tp1;
                tp3 = tp_sync tp2
            in Inr (st\<lparr>grid_maps :=
                          fold (grid_map_task (slab w) atom_types_to_populate)
                            [0..<num_gm_tasks] gms,
                        tp := tp3\<rparr>))"

subsection \<open>Monte Carlo tasks and the merge of their results (lines 370 to 398)\<close>

definition mc_tasks :: "task list" where
  "mc_tasks = map McTask [0..<num_mc_tasks]"

definition merge_results :: "world \<Rightarrow> nat \<Rightarrow> ligand \<Rightarrow> result list" where
  "merge_results w i lig =
     (let required_square_error = real (4 * num_heavy_atoms lig) in
      fold (\<lambda>k results.
              fold (\<lambda>r rs. add_to_result_container w rs r required_square_error)
                (task_results w i k) results)
        [0..<num_mc_tasks] [])"

definition monte_carlo :: "thread_pool \<Rightarrow> thread_pool" where
  "monte_carlo tp0 =
     (let tp1 = tp_run mc_tasks tp0;
          tp2 = fold future_get mc_tasks tp1
      in tp_sync tp2)"

subsection \<open>The best result and its line (lines 400 to 415)\<close>

text \<open>
  \<^verbatim>\<open>results\<close> is a \<^verbatim>\<open>ptr_vector\<close>: it owns its elements, and \<^verbatim>\<open>clear()\<close> destroys them.
  \<^verbatim>\<open>best_result\<close> is a reference to the first element, here its position in the
  container. Reading \<^verbatim>\<open>e_nd\<close> through the reference gives the field of the element while
  the container holds it, and whatever the destroyed storage yields afterwards.
\<close>

definition ptr_vector_clear :: "'a list \<Rightarrow> 'a list" where
  "ptr_vector_clear xs = []"

definition read_e_nd :: "fl \<Rightarrow> result list \<Rightarrow> nat \<Rightarrow> fl" where
  "read_e_nd destroyed results k =
     (if k < length results then result_e_nd (results ! k) else destroyed)"

definition adjust_best :: "ligand \<Rightarrow> result list \<Rightarrow> result list" where
  "adjust_best lig results =
     results[0 := (results ! 0)\<lparr>result_e_nd :=
                     result_f (results ! 0) * flexibility_penalty_factor lig\<rparr>]"

definition dump_best ::
  "world \<Rightarrow> nat \<Rightarrow> string \<Rightarrow> ligand \<Rightarrow> result list \<Rightarrow> ofstream \<Rightarrow> ofstream" where
  "dump_best w i zid lig results os =
     (let num_results = min (length results) max_conformations in
      if num_results = 0 then os
      else
        let best_result = 0;
            results1 = adjust_best lig results;
            results2 = ptr_vector_clear results1;
            v = read_e_nd (destroyed_e_nd w i) results2 best_result
        in put [CHR 0x0A] (put_fl (fl_digits w) v (put '','' (put zid os))))"

subsection \<open>One ligand, and the ligands of a slice (lines 303 to 416)\<close>

definition process_ligand :: "world \<Rightarrow> bounds \<Rightarrow> nat \<Rightarrow> state \<Rightarrow> error + state" where
  "process_ligand w B i st =
     (let line = ligand_line w i in
      if \<not> passes_filters B (read_descriptors (conversions w) line) then Inr st
      else
        case zinc_id line of
          Inl e \<Rightarrow> Inl e
        | Inr zid \<Rightarrow>
            (let lig = parse_ligand w [] in
             (case create_grid_maps w lig st of
                Inl e \<Rightarrow> Inl e
              | Inr st1 \<Rightarrow>
                  (let st2 = st1\<lparr>tp := monte_carlo (tp st1)\<rparr>;
                       results = merge_results w i lig
                   in Inr (st2\<lparr>csv := dump_best w i zid lig results (csv st2)\<rparr>)))))"

fun for_ligands :: "world \<Rightarrow> bounds \<Rightarrow> nat list \<Rightarrow> state \<Rightarrow> error + state" where
  "for_ligands w B [] st = Inr st"
| "for_ligands w B (i # is) st =
     (case process_ligand w B i st of
        Inl e \<Rightarrow> Inl e
      | Inr st' \<Rightarrow> for_ligands w B is st')"

subsection \<open>A job (lines 176 to 417)\<close>

text \<open>
  The files: a path has its contents, or does not exist. Opening an \<^verbatim>\<open>ifstream\<close> changes
  no file; opening an \<^verbatim>\<open>ofstream\<close> creates the file or truncates it, and what the stream
  has written is the contents of the file when it is closed.
\<close>

type_synonym filesystem = "string \<rightharpoonup> string"

definition csv_path :: string where
  "csv_path = ''log.csv''"

definition exists_file :: "filesystem \<Rightarrow> string \<Rightarrow> bool" where
  "exists_file fs path \<longleftrightarrow> fs path \<noteq> None"

definition ifstream_open :: "filesystem \<Rightarrow> string \<Rightarrow> string" where
  "ifstream_open fs path = (case fs path of None \<Rightarrow> [] | Some contents \<Rightarrow> contents)"

text \<open>
  Lines 288 to 293: the stream \<^verbatim>\<open>csv\<close> of the block is opened and goes out of scope;
  the position from which the loop starts is the one the block leaves, which is the one
  it was given.
\<close>

definition skip_screened :: "filesystem \<Rightarrow> nat \<Rightarrow> nat" where
  "skip_screened fs start_lig =
     (if exists_file fs csv_path
      then (let csv_in = ifstream_open fs csv_path in start_lig)
      else start_lig)"

definition open_csv :: "filesystem \<Rightarrow> filesystem \<times> ofstream" where
  "open_csv fs =
     (fs(csv_path \<mapsto> []), setprecision 3 (put [CHR 0x0A] (setf_fixed ofstream_open)))"

definition close_csv :: "filesystem \<Rightarrow> ofstream \<Rightarrow> filesystem" where
  "close_csv fs os = fs(csv_path \<mapsto> written os)"

definition execute_job ::
  "world \<Rightarrow> job_document \<Rightarrow> nat \<Rightarrow> filesystem \<Rightarrow> array3d list \<Rightarrow> thread_pool
     \<Rightarrow> error + filesystem \<times> array3d list \<times> thread_pool" where
  "execute_job w p s fs gms tp0 =
     (let B = job_bounds main_defaults p in
      case slice_range s of
        Inl e \<Rightarrow> Inl e
      | Inr (start_lig, end_lig) \<Rightarrow>
          (let first_lig = skip_screened fs start_lig;
               (fs1, csv0) = open_csv fs
           in (case for_ligands w B [first_lig..<end_lig]
                      \<lparr>grid_maps = gms, tp = tp0, csv = csv0\<rparr> of
                 Inl e \<Rightarrow> Inl e
               | Inr st \<Rightarrow> Inr (close_csv fs1 (csv st), grid_maps st, tp st))))"

subsection \<open>The words of the specification\<close>

text \<open>The bytes of a line at the columns \<open>a\<close> to \<open>b\<close>, counted from 1 and inclusive.\<close>

definition columns :: "string \<Rightarrow> nat \<Rightarrow> nat \<Rightarrow> string" where
  "columns line a b = map (\<lambda>k. line ! (k - 1)) [a..<Suc b]"

text \<open>The nine descriptor fields, each between its lower and its upper bound.\<close>

definition descriptor_ranges :: "bounds \<Rightarrow> descriptors \<Rightarrow> (real \<times> real \<times> real) list" where
  "descriptor_ranges B d =
     [(mwt_lb B, mwt d, mwt_ub B),
      (logp_lb B, logp d, logp_ub B),
      (ad_lb B, ad d, ad_ub B),
      (pd_lb B, pd d, pd_ub B),
      (hbd_lb B, real (hbd d), hbd_ub B),
      (hba_lb B, real (hba d), hba_ub B),
      (tpsa_lb B, real (tpsa d), tpsa_ub B),
      (charge_lb B, real_of_int (charge d), charge_ub B),
      (nrb_lb B, real (nrb d), nrb_ub B)]"

text \<open>
  A ligand survives when it passes the filters and its merged result list is not empty;
  its line in the CSV file is its identifier (the 8 bytes that follow the first 10 of
  its descriptor line), a comma, the digits of a number and a newline.
\<close>

definition survives :: "world \<Rightarrow> bounds \<Rightarrow> nat \<Rightarrow> bool" where
  "survives w B i \<longleftrightarrow>
     passes_filters B (read_descriptors (conversions w) (ligand_line w i)) \<and>
     merge_results w i (parse_ligand w []) \<noteq> []"

definition csv_line :: "world \<Rightarrow> nat \<Rightarrow> string" where
  "csv_line w i =
     take 8 (drop 10 (ligand_line w i)) @ '','' @ fl_digits w Fixed 3 (destroyed_e_nd w i)
       @ [CHR 0x0A]"

definition job_csv :: "error + filesystem \<times> array3d list \<times> thread_pool \<Rightarrow> string option" where
  "job_csv r = (case r of Inl e \<Rightarrow> None | Inr (fs, gms, tp1) \<Rightarrow> fs csv_path)"

subsection \<open>A small library for the examples\<close>

text \<open>
  Three atom types, a box of two by one by one probes, and a library in which the
  ligands 0 and 2 weigh 450 and every other ligand weighs 399.9. Only the first Monte
  Carlo task of ligand 0 finds a result.
\<close>

definition sample_line :: "string \<Rightarrow> string \<Rightarrow> string" where
  "sample_line ident weight =
     ''REMARK    '' @ ident @ ''   '' @ weight
       @ ''    2.510  -10.000  -20.000   2   4  39   3   5''"

definition sample_casts :: casts where
  "sample_casts =
     \<lparr>cast_fl = (\<lambda>s. case map_of [(''450.000'', 450), (''399.900'', 3999 / 10),
                                   (''  2.510'', 251 / 100), (''-10.000'', - 10),
                                   (''-20.000'', - 20)] s of
                       Some v \<Rightarrow> v | None \<Rightarrow> 0),
      cast_size_t = (\<lambda>s. case map_of [('' 2'', 2), ('' 4'', 4), (''39'', 39), ('' 5'', 5)] s of
                           Some v \<Rightarrow> v | None \<Rightarrow> 0),
      cast_int64 = (\<lambda>s. case map_of [('' 3'', 3)] s of Some v \<Rightarrow> v | None \<Rightarrow> 0)\<rparr>"

definition sample_world :: world where
  "sample_world =
     \<lparr>XS_TYPE_SIZE = 3,
      num_probes = (2, 1, 1),
      ligand_line = (\<lambda>i. if i = 0 then sample_line ''00000007'' ''450.000''
                          else if i = 2 then sample_line ''00000009'' ''450.000''
                          else sample_line ''00000008'' ''399.900''),
      conversions = sample_casts,
      parse_ligand = (\<lambda>path. \<lparr>atom_types = [0, 2], num_heavy_atoms = 10,
                                flexibility_penalty_factor = 2\<rparr>),
      slab = (\<lambda>t x cells. cells[x := cells ! x + 1]),
      task_results = (\<lambda>i k. if i = 0 \<and> k = 0 then [\<lparr>result_f = - 9, result_e_nd = 0\<rparr>] else []),
      add_to_result_container = (\<lambda>results r required_square_error. results @ [r]),
      destroyed_e_nd = (\<lambda>i. 0),
      fl_digits = (\<lambda>notation n v. if notation = Fixed \<and> n = 3 \<and> v = 0 then ''0.000'' else ''?'')\<rparr>"

text \<open>The same library with every ligand at 399.9.\<close>

definition quiet_world :: world where
  "quiet_world = sample_world\<lparr>ligand_line := (\<lambda>i. sample_line ''00000008'' ''399.900'')\<rparr>"

definition sample_bounds :: bounds where
  "sample_bounds = job_bounds main_defaults Map.empty"

definition sample_state :: state where
  "sample_state =
     \<lparr>grid_maps = replicate 3 Uninitialized, tp = new_thread_pool,
      csv = snd (open_csv Map.empty)\<rparr>"

text \<open>The state after ligand 0 was docked from the first state, and after ligand 2 as well.\<close>

definition sample_docked :: state where
  "sample_docked =
     \<lparr>grid_maps = [Initialized (2, 1, 1) [1, 1], Uninitialized, Initialized (2, 1, 1) [1, 1]],
      tp = \<lparr>pending = [],
            events = map Dispatched (gm_tasks 2 [0, 2]) @ map Completed (gm_tasks 2 [0, 2])
                       @ map Dispatched mc_tasks @ map Completed mc_tasks\<rparr>,
      csv = \<lparr>written = [CHR 0x0A] @ ''00000007,0.000'' @ [CHR 0x0A], floatfield = Fixed,
             precision = 3\<rparr>\<rparr>"

definition sample_final :: state where
  "sample_final =
     sample_docked\<lparr>tp := \<lparr>pending = [],
                           events = events (tp sample_docked)
                                      @ map Dispatched mc_tasks @ map Completed mc_tasks\<rparr>\<rparr>"

section \<open>Properties\<close>

subsection \<open>The thread pool\<close>

lemma fold_future_get:
  "fold future_get ts \<lparr>pending = ts, events = es\<rparr> = \<lparr>pending = [], events = es @ map Completed ts\<rparr>"
  by (induction ts arbitrary: es) (simp_all add: future_get_def)

lemma run_get_sync:
  "pending P = [] \<Longrightarrow>
   tp_sync (fold future_get ts (tp_run ts P))
     = \<lparr>pending = [], events = events P @ map Dispatched ts @ map Completed ts\<rparr>"
  by (simp add: tp_run_def fold_future_get tp_sync_def)

lemma run_sync:
  "pending P = [] \<Longrightarrow>
   tp_sync (tp_run ts P)
     = \<lparr>pending = [], events = events P @ map Dispatched ts @ map Completed ts\<rparr>"
  by (simp add: tp_run_def tp_sync_def)

lemma monte_carlo_events:
  "pending P = [] \<Longrightarrow>
   monte_carlo P = \<lparr>pending = [], events = events P @ map Dispatched mc_tasks @ map Completed mc_tasks\<rparr>"
  by (simp add: monte_carlo_def run_get_sync)

lemma fold_noop: "(\<And>k. k \<in> set ks \<Longrightarrow> f k = (\<lambda>x. x)) \<Longrightarrow> fold f ks a = a"
  by (induction ks arbitrary: a) simp_all

subsection \<open>The arithmetic of the format\<close>

lemma round_even_of_int: "round_even (of_int z) = z"
  by (simp add: round_even_def)

lemma round_even_le: "round_even y \<le> \<lfloor>y\<rfloor> + 1"
  by (simp add: round_even_def Let_def)

lemma fl_round_0: "fl_round p 0 = 0"
  by (simp add: fl_round_def)

lemma floor_log2_bounds:
  assumes "0 < x"
  shows "2 powi \<lfloor>log 2 x\<rfloor> \<le> x" and "x < 2 powi (\<lfloor>log 2 x\<rfloor> + 1)"
proof -
  have "\<lfloor>log 2 x\<rfloor> = \<lfloor>log 2 x\<rfloor>" ..
  then have "2 powr (of_int \<lfloor>log 2 x\<rfloor>) \<le> x \<and> x < 2 powr (of_int (\<lfloor>log 2 x\<rfloor> + 1))"
    using assms floor_log_eq_powr_iff [of x 2 "\<lfloor>log 2 x\<rfloor>"] by simp
  moreover have "2 powr (of_int (\<lfloor>log 2 x\<rfloor> + 1)) = (2 :: real) powi (\<lfloor>log 2 x\<rfloor> + 1)"
    by (rule powr_real_of_int') simp_all
  moreover have "2 powr (of_int \<lfloor>log 2 x\<rfloor>) = (2 :: real) powi \<lfloor>log 2 x\<rfloor>"
    by (rule powr_real_of_int') simp_all
  ultimately show "2 powi \<lfloor>log 2 x\<rfloor> \<le> x" and "x < 2 powi (\<lfloor>log 2 x\<rfloor> + 1)"
    by simp_all
qed

text \<open>A number with a significand of at most \<open>p\<close> bits is a value of the format.\<close>

lemma fl_round_exact:
  assumes "\<bar>m\<bar> < 2 ^ p"
  shows "fl_round p (of_int m * 2 powi k) = of_int m * 2 powi k"
proof (cases "m = 0")
  case True
  then show ?thesis by (simp add: fl_round_def)
next
  case False
  define x :: real where "x = of_int m * 2 powi k"
  define e where "e = \<lfloor>log 2 \<bar>x\<bar>\<rfloor>"
  have x0: "x \<noteq> 0" using False by (simp add: x_def)
  then have pos: "0 < \<bar>x\<bar>" by simp
  have "2 powi e \<le> \<bar>x\<bar>"
    unfolding e_def by (rule floor_log2_bounds(1) [OF pos])
  also have "\<bar>x\<bar> = of_int \<bar>m\<bar> * 2 powi k"
    by (simp add: x_def abs_mult)
  also have "\<dots> < 2 ^ p * 2 powi k"
  proof -
    have "(of_int \<bar>m\<bar> :: real) < of_int (2 ^ p)" using assms by (simp only: of_int_less_iff)
    then show ?thesis by (simp add: mult_strict_right_mono)
  qed
  also have "\<dots> = 2 powi (int p + k)"
    by (simp add: power_int_add)
  finally have lt: "(2 :: real) powi e < 2 powi (int p + k)" .
  have "e < int p + k"
  proof (rule ccontr)
    assume "\<not> e < int p + k"
    then have "(2 :: real) powi (int p + k) \<le> 2 powi e"
      by (intro power_int_increasing) simp_all
    with lt show False by simp
  qed
  then have d: "0 \<le> k - (e + 1 - int p)" by simp
  define j where "j = nat (k - (e + 1 - int p))"
  have "x / 2 powi (e + 1 - int p) = of_int m * 2 powi (k - (e + 1 - int p))"
    by (simp add: x_def power_int_diff)
  also have "\<dots> = of_int (m * 2 ^ j)"
    using d by (simp add: j_def power_int_def)
  finally have q: "x / 2 powi (e + 1 - int p) = of_int (m * 2 ^ j)" .
  have "fl_round p x = of_int (round_even (x / 2 powi (e + 1 - int p))) * 2 powi (e + 1 - int p)"
    using x0 by (simp add: fl_round_def e_def Let_def)
  also have "\<dots> = of_int (m * 2 ^ j) * 2 powi (e + 1 - int p)"
    by (simp only: q round_even_of_int)
  also have "\<dots> = x / 2 powi (e + 1 - int p) * 2 powi (e + 1 - int p)"
    by (simp only: q)
  also have "\<dots> = x" by simp
  finally show ?thesis by (simp add: x_def)
qed

lemma fl_round_of_int: "\<bar>m\<bar> < 2 ^ p \<Longrightarrow> fl_round p (of_int m) = of_int m"
  using fl_round_exact [of m p 0] by simp

lemma fl_round_of_nat: "n < 2 ^ p \<Longrightarrow> fl_round p (real n) = real n"
  using fl_round_of_int [of "int n" p] by (simp add: of_nat_less_numeral_power_cancel_iff)

lemma fl_round_pow2: "0 < p \<Longrightarrow> fl_round p (2 powi k) = 2 powi k"
  using fl_round_exact [of 1 p k] by simp

text \<open>The rounding of a number that is nearer to \<open>m\<close> units than to any other multiple.\<close>

lemma round_even_near:
  assumes "of_int m - 1 / 2 < y" and "y < of_int m + 1 / 2"
  shows "round_even y = m"
proof (cases "of_int m \<le> y")
  case True
  with assms have "\<lfloor>y\<rfloor> = m" by (simp add: floor_eq_iff)
  with assms show ?thesis by (simp add: round_even_def)
next
  case False
  with assms have f: "\<lfloor>y\<rfloor> = m - 1" by (simp add: floor_eq_iff)
  with assms have "1 / 2 < y - of_int \<lfloor>y\<rfloor>" by simp
  then show ?thesis by (simp add: round_even_def f)
qed

lemma fl_round_near:
  assumes "2 powi e \<le> x" and "x < 2 powi (e + 1)"
    and "of_int m - 1 / 2 < x / 2 powi (e + 1 - int p)"
    and "x / 2 powi (e + 1 - int p) < of_int m + 1 / 2"
  shows "fl_round p x = of_int m * 2 powi (e + 1 - int p)"
proof -
  have pos: "0 < x" using assms(1) by (rule less_le_trans [rotated]) simp
  have "\<lfloor>log 2 x\<rfloor> = e"
  proof -
    have "2 powr (of_int e) = (2 :: real) powi e" by (rule powr_real_of_int') simp_all
    moreover have "2 powr (of_int (e + 1)) = (2 :: real) powi (e + 1)"
      by (rule powr_real_of_int') simp_all
    ultimately show ?thesis
      using pos assms(1,2) floor_log_eq_powr_iff [of x 2 e] by simp
  qed
  with pos have "fl_round p x =
      of_int (round_even (x / 2 powi (e + 1 - int p))) * 2 powi (e + 1 - int p)"
    by (simp add: fl_round_def Let_def)
  with round_even_near [OF assms(3,4)] show ?thesis by simp
qed


subsection \<open>The distance samples\<close>

lemma rs_front: "0 < N \<Longrightarrow> vector_front (rs p N FI) = Inr 0"
  by (cases N) (simp_all add: rs_def vector_front_def upt_rec fl_round_0)

lemma rs_back:
  "0 < N \<Longrightarrow> vector_back (rs p N FI) =
     Inr (fl_round p (sqrt (fl_round p (fl_round p (real (N - 1)) * FI))))"
  by (cases N) (simp_all add: rs_def vector_back_def)

lemma rs_assertions_exact:
  assumes "1 < N" and "0 \<le> Cutoff"
    and "fl_round p (real (N - 1)) = real (N - 1)"
    and "fl_round p (real (N - 1) * FI) = Cutoff\<^sup>2"
    and "fl_round p Cutoff = Cutoff"
  shows "rs_assertions p N FI Cutoff"
proof -
  have "sqrt (Cutoff\<^sup>2) = Cutoff" using assms(2) by simp
  with assms show ?thesis
    by (simp add: rs_assertions_def rs_front rs_back)
qed

lemma rs_assertions_pow2:
  assumes "0 < p" and "Cutoff = 2 ^ m" and "Factor = 2 ^ k"
    and "real N = Factor * Cutoff\<^sup>2 + 1"
  shows "rs_assertions p N (1 / Factor) Cutoff"
proof (rule rs_assertions_exact)
  have n0: "real (N - 1) = 2 ^ (k + 2 * m)"
  proof -
    have "real N = 2 ^ (k + 2 * m) + 1"
      using assms(2-4) by (simp add: power_add power_mult power2_eq_square mult.commute power_even_eq)
    moreover from this have "1 \<le> real N"
      by simp
    then have "real (N - 1) = real N - 1"
      by (simp add: of_nat_diff)
    ultimately show ?thesis
      by simp
  qed
  then have n: "real (N - 1) = 2 powi (int (k + 2 * m))"
    by (simp only: power_int_of_nat)
  have "(2 :: real) ^ (k + 2 * m) \<ge> 1" by simp
  with n have "real (N - 1) \<ge> 1" by simp
  then show "1 < N" by simp
  show "0 \<le> Cutoff" using assms(2) by simp
  show "fl_round p (real (N - 1)) = real (N - 1)"
    unfolding n using assms(1) by (rule fl_round_pow2)
  have "real (N - 1) = Factor * Cutoff\<^sup>2"
    using n0 assms(2,3) by (simp add: power_add power_mult power2_eq_square mult.commute power_even_eq)
  then have "real (N - 1) * (1 / Factor) = Cutoff\<^sup>2"
    using assms(3) by simp
  moreover have "Cutoff\<^sup>2 = 2 powi (int (2 * m))"
  proof -
    have "Cutoff\<^sup>2 = 2 ^ (2 * m)"
      using assms(2) by (simp add: power_mult [symmetric] mult.commute)
    then show ?thesis by (simp only: power_int_of_nat)
  qed
  ultimately show "fl_round p (real (N - 1) * (1 / Factor)) = Cutoff\<^sup>2"
    using assms(1) by (simp only: fl_round_pow2)
  have "Cutoff = 2 powi (int m)" using assms(2) by simp
  then show "fl_round p Cutoff = Cutoff"
    using assms(1) by (simp only: fl_round_pow2)
qed

lemma fl_round_below:
  assumes "2 powi e \<le> x" and "x < 2 powi (e + 1) - 2 powi (e + 1 - int p)"
  shows "fl_round p x < 2 powi (e + 1)"
proof -
  have pos: "0 < x" using assms(1) by (rule less_le_trans [rotated]) simp
  have x2: "x < 2 powi (e + 1)"
    using assms(2) by (rule less_trans) (simp add: zero_less_power_int)
  have "\<lfloor>log 2 x\<rfloor> = e"
  proof -
    have "2 powr (of_int e) = (2 :: real) powi e" by (rule powr_real_of_int') simp_all
    moreover have "2 powr (of_int (e + 1)) = (2 :: real) powi (e + 1)"
      by (rule powr_real_of_int') simp_all
    ultimately show ?thesis
      using pos assms(1) x2 floor_log_eq_powr_iff [of x 2 e] by simp
  qed
  define u :: real where "u = 2 powi (e + 1 - int p)"
  have u: "0 < u" by (simp add: u_def zero_less_power_int)
  have "2 powi (e + 1) = (2 :: real) ^ p * u"
    by (simp add: u_def power_int_diff)
  with assms(2) have "x < (2 ^ p - 1) * u"
    by (simp add: u_def algebra_simps)
  then have "x / u < 2 ^ p - 1"
    using u by (simp add: field_simps)
  then have "x / u < of_int (2 ^ p - 1)" by simp
  then have "\<lfloor>x / u\<rfloor> < 2 ^ p - 1"
    by (simp only: floor_less_iff)
  with round_even_le [of "x / u"] have "round_even (x / u) < 2 ^ p" by simp
  then have "(of_int (round_even (x / u)) :: real) < of_int (2 ^ p)"
    by (simp only: of_int_less_iff)
  then have "of_int (round_even (x / u)) * u < 2 ^ p * u"
    using u by simp
  moreover have "fl_round p x = of_int (round_even (x / u)) * u"
    using pos \<open>\<lfloor>log 2 x\<rfloor> = e\<close> by (simp add: fl_round_def u_def Let_def)
  ultimately show ?thesis
    using \<open>2 powi (e + 1) = 2 ^ p * u\<close> by simp
qed

lemma rs_back_spec_constants:
  assumes "13 \<le> p"
  shows "\<not> rs_assertions p 2048 (1 / 32) 8"
proof -
  have "(2047 :: nat) < 2 ^ 13" by simp
  also have "\<dots> \<le> 2 ^ p" using assms by (intro power_increasing) simp_all
  finally have a: "fl_round p (real 2047) = real 2047" by (rule fl_round_of_nat)
  have "\<bar>2047 :: int\<bar> < 2 ^ 13" by simp
  also have "\<dots> \<le> 2 ^ p" using assms by (intro power_increasing) simp_all
  finally have "fl_round p (of_int 2047 * 2 powi (- 5)) = of_int 2047 * 2 powi (- 5)"
    by (rule fl_round_exact)
  then have b: "fl_round p (2047 / 32) = 2047 / 32"
    by (simp add: power_int_minus field_simps)
  have lo: "2 powi 2 \<le> sqrt (2047 / 32)"
    by (simp add: real_le_rsqrt)
  have "(2 :: real) powi (3 - int p) \<le> 2 powi (- 10)"
    using assms by (intro power_int_increasing) simp_all
  moreover have "sqrt (2047 / 32) < 8 - 1 / 512"
    by (rule real_less_lsqrt) (simp_all add: power2_eq_square)
  ultimately have hi: "sqrt (2047 / 32) < 2 powi (2 + 1) - 2 powi (2 + 1 - int p)"
    by (simp add: power_int_minus)
  from fl_round_below [OF lo hi] have lt: "fl_round p (sqrt (2047 / 32)) < 8" by simp
  have "real (2048 - 1) = real 2047" "real 2047 * (1 / 32) = 2047 / 32"
    by simp_all
  then have "fl_round p (fl_round p (real (2048 - 1)) * (1 / 32)) = 2047 / 32"
    by (simp only: a b)
  with rs_back [of 2048 p "1 / 32"] have
    "vector_back (rs p 2048 (1 / 32)) = Inr (fl_round p (sqrt (2047 / 32)))"
    by (simp only: zero_less_numeral)
  with lt show ?thesis
    by (simp add: rs_assertions_def)
qed

text \<open>
  The factor \<open>(Num_Samples - 1) / Cutoff\<^sup>2\<close> alone does not make the last sample
  \<open>Cutoff\<close>: for 50 samples and the cutoff 8 in \<^verbatim>\<open>double\<close> the inverse of \<open>49 / 64\<close> is
  rounded, 49 times it is rounded to \<open>64 - 1 / 2 ^ 47\<close>, and the last sample is
  \<open>8 - 1 / 2 ^ 50\<close>, about 7.999999999999999.
\<close>

lemma factor_inverse_50: "fl_round 53 (1 / (49 / 64)) = 5882252574524729 / 2 ^ 52"
proof -
  have "fl_round 53 (64 / 49) = of_int 5882252574524729 * 2 powi (0 + 1 - int 53)"
    by (rule fl_round_near) (simp_all add: power_int_minus field_simps)
  then show ?thesis by (simp add: power_int_minus field_simps)
qed

lemma last_product_50: "fl_round 53 (fl_round 53 (real (50 - 1)) * (5882252574524729 / 2 ^ 52)) = 64 - 1 / 2 ^ 47"
proof -
  have "fl_round 53 (real 49) = real 49" by (rule fl_round_of_nat) simp
  then have a: "fl_round 53 (real (50 - 1)) = 49" by simp
  have "fl_round 53 (49 * (5882252574524729 / 2 ^ 52)) = of_int (2 ^ 53 - 1) * 2 powi (5 + 1 - int 53)"
    by (rule fl_round_near) (simp_all add: power_int_minus field_simps)
  then show ?thesis unfolding a by (simp add: power_int_minus field_simps)
qed

lemma last_sqrt_50: "fl_round 53 (sqrt (64 - 1 / 2 ^ 47)) = 8 - 1 / 2 ^ 50"
proof -
  have lo: "2 powi 2 \<le> sqrt (64 - 1 / 2 ^ 47)"
    by (simp add: real_le_rsqrt)
  have hi: "sqrt (64 - 1 / 2 ^ 47) < 2 powi (2 + 1)"
    by (simp, rule real_less_lsqrt) simp_all
  have l: "(2 ^ 53 - 3 / 2) / 2 ^ 50 < sqrt (64 - 1 / 2 ^ 47)"
    by (rule real_less_rsqrt) (simp add: power2_eq_square field_simps)
  have h: "sqrt (64 - 1 / 2 ^ 47) < (2 ^ 53 - 1 / 2) / 2 ^ 50"
    by (rule real_less_lsqrt) (simp_all add: power2_eq_square field_simps)
  have "fl_round 53 (sqrt (64 - 1 / 2 ^ 47)) = of_int (2 ^ 53 - 1) * 2 powi (2 + 1 - int 53)"
    using lo hi
  proof (rule fl_round_near)
    show "of_int (2 ^ 53 - 1) - 1 / 2 < sqrt (64 - 1 / 2 ^ 47) / 2 powi (2 + 1 - int 53)"
      using l by (simp add: power_int_minus field_simps)
    show "sqrt (64 - 1 / 2 ^ 47) / 2 powi (2 + 1 - int 53) < of_int (2 ^ 53 - 1) + 1 / 2"
      using h by (simp add: power_int_minus field_simps)
  qed
  then show ?thesis by (simp add: power_int_minus field_simps)
qed

lemma rs_back_rounding_50:
  "vector_back (rs 53 50 (fl_round 53 (1 / (49 / 64)))) = Inr (8 - 1 / 2 ^ 50)
   \<and> \<not> rs_assertions 53 50 (fl_round 53 (1 / (49 / 64))) 8"
proof -
  have "vector_back (rs 53 50 (fl_round 53 (1 / (49 / 64)))) = Inr (8 - 1 / 2 ^ 50)"
    using rs_back [of 50 53 "fl_round 53 (1 / (49 / 64))"]
    by (simp only: factor_inverse_50 last_product_50 last_sqrt_50 zero_less_numeral)
  then show ?thesis by (simp add: rs_assertions_def)
qed




subsection \<open>The scoring function tasks\<close>

lemma sum_Suc_upto: "2 * (\<Sum>i<n. Suc i) = n * (n + 1)"
  by (induction n) simp_all

lemma sum_down: "(\<Sum>t<n. n - t) = (\<Sum>i<n. Suc i)"
proof -
  have "(\<Sum>t<n. n - t) = (\<Sum>t<n. Suc (n - Suc t))"
    by (rule sum.cong) auto
  also have "\<dots> = (\<Sum>i<n. Suc i)"
    by (rule sum.nat_diff_reindex)
  finally show ?thesis .
qed

lemma length_sf_tasks: "length (sf_tasks n) = num_sf_tasks n"
proof -
  have "length (sf_tasks n) = (\<Sum>t<n. n - t)"
    by (simp add: sf_tasks_def length_concat comp_def interv_sum_list_conv_sum_set_nat
        atLeast0LessThan)
  then have "2 * length (sf_tasks n) = (n + 1) * n"
    using sum_Suc_upto [of n] by (simp add: sum_down mult.commute)
  then show ?thesis
    by (simp add: num_sf_tasks_def)
qed

lemma set_sf_tasks: "set (sf_tasks n) = {SfTask t1 t2 | t1 t2. t1 \<le> t2 \<and> t2 < n}"
proof -
  have "SfTask t1 t2 \<in> set (sf_tasks n) \<longleftrightarrow> t1 \<le> t2 \<and> t2 < n" for t1 t2
    by (auto simp: sf_tasks_def intro!: bexI [of _ t1])
  moreover have "\<exists>t1 t2. t = SfTask t1 t2" if "t \<in> set (sf_tasks n)" for t
    using that by (auto simp: sf_tasks_def)
  ultimately show ?thesis
    by blast
qed

lemma row_nonempty: "t1 < n \<Longrightarrow> map (SfTask t1) [t1..<n] = SfTask t1 t1 # map (SfTask t1) [Suc t1..<n]"
  by (simp add: upt_rec [of t1])

lemma distinct_sf_tasks: "distinct (sf_tasks n)"
  unfolding sf_tasks_def
proof (rule distinct_concat)
  have "inj_on (\<lambda>t1. map (SfTask t1) [t1..<n]) {0..<n}"
  proof (rule inj_onI)
    fix a b
    assume "a \<in> {0..<n}" "b \<in> {0..<n}" "map (SfTask a) [a..<n] = map (SfTask b) [b..<n]"
    then have "SfTask a a # map (SfTask a) [Suc a..<n] = SfTask b b # map (SfTask b) [Suc b..<n]"
      by (simp add: row_nonempty)
    then show "a = b"
      by simp
  qed
  then show "distinct (map (\<lambda>t1. map (SfTask t1) [t1..<n]) [0..<n])"
    by (simp add: distinct_map)
next
  fix ys
  assume "ys \<in> set (map (\<lambda>t1. map (SfTask t1) [t1..<n]) [0..<n])"
  then show "distinct ys"
    by (auto simp: distinct_map inj_on_def)
next
  fix ys zs
  assume "ys \<in> set (map (\<lambda>t1. map (SfTask t1) [t1..<n]) [0..<n])"
    "zs \<in> set (map (\<lambda>t1. map (SfTask t1) [t1..<n]) [0..<n])" "ys \<noteq> zs"
  then show "set ys \<inter> set zs = {}"
    by auto
qed

lemma startup_eq:
  "startup p N FI C n =
     (if rs_assertions p N FI C
      then Inr (replicate n Uninitialized,
             \<lparr>pending = [], events = map Dispatched (sf_tasks n) @ map Completed (sf_tasks n)\<rparr>)
      else if N = 0 then Inl OutOfBounds else Inl AssertionFailed)"
proof (cases "N = 0")
  case True
  then show ?thesis
    by (simp add: startup_def precalculate_scoring_function_def rs_assertions_def rs_def
        vector_front_def)
next
  case False
  then have N: "0 < N" by simp
  show ?thesis
    using N by (simp add: startup_def precalculate_scoring_function_def rs_assertions_def
        rs_front rs_back Let_def length_sf_tasks run_sync new_thread_pool_def)
qed

text \<open>
  C9. At startup, once the two assertions on the distance samples have passed, one task
  of \<^verbatim>\<open>scoring_function::precalculate\<close> is dispatched for every pair of atom types
  \<open>t1 \<le> t2 < XS_TYPE_SIZE\<close>, each pair once, which makes
  \<open>XS_TYPE_SIZE * (XS_TYPE_SIZE + 1) / 2\<close> tasks; when the worker goes on to fetch its
  first job all of them have completed and none is pending, and the grid maps are all
  uninitialized. When an assertion fails the worker stops before it creates a task.
\<close>

theorem scoring_function_precalculated:
  "(rs_assertions p N FI C \<longrightarrow>
      startup p N FI C n =
        Inr (replicate n Uninitialized,
             \<lparr>pending = [], events = map Dispatched (sf_tasks n) @ map Completed (sf_tasks n)\<rparr>))
   \<and> (startup p N FI C n = Inr (gms, P) \<longrightarrow>
        rs_assertions p N FI C \<and> gms = replicate n Uninitialized \<and>
        P = \<lparr>pending = [], events = map Dispatched (sf_tasks n) @ map Completed (sf_tasks n)\<rparr>)
   \<and> (\<not> rs_assertions p N FI C \<longrightarrow>
        startup p N FI C n = (if N = 0 then Inl OutOfBounds else Inl AssertionFailed))
   \<and> length (sf_tasks n) = n * (n + 1) div 2
   \<and> distinct (sf_tasks n)
   \<and> set (sf_tasks n) = {SfTask t1 t2 | t1 t2. t1 \<le> t2 \<and> t2 < n}"
  by (simp add: startup_eq length_sf_tasks distinct_sf_tasks set_sf_tasks)
     (simp add: num_sf_tasks_def mult.commute)

theorem scoring_function_precalculated_witness:
  "rs_assertions 53 16385 (1 / 256) 8
   \<and> startup 53 16385 (1 / 256) 8 2 =
     Inr ([Uninitialized, Uninitialized],
          \<lparr>pending = [],
           events = [Dispatched (SfTask 0 0), Dispatched (SfTask 0 1), Dispatched (SfTask 1 1),
                     Completed (SfTask 0 0), Completed (SfTask 0 1), Completed (SfTask 1 1)]\<rparr>)
   \<and> length (sf_tasks 2) = 3
   \<and> distinct (sf_tasks 2)
   \<and> set (sf_tasks 2) = {SfTask 0 0, SfTask 0 1, SfTask 1 1}
   \<and> \<not> rs_assertions 53 2048 (1 / 32) 8
   \<and> startup 53 2048 (1 / 32) 8 2 = Inl AssertionFailed"
proof -
  have a: "rs_assertions 53 16385 (1 / 256) 8"
    using rs_assertions_pow2 [of 53 8 3 256 8 16385] by simp
  have b: "\<not> rs_assertions 53 2048 (1 / 32) 8"
    by (rule rs_back_spec_constants) simp
  have c: "sf_tasks 2 = [SfTask 0 0, SfTask 0 1, SfTask 1 1]"
    by (simp add: sf_tasks_def numeral_2_eq_2)
  note T = scoring_function_precalculated [of 53 16385 "1 / 256" 8 2]
  note U = scoring_function_precalculated [of 53 2048 "1 / 32" 8 2]
  have d: "startup 53 16385 (1 / 256) 8 2 =
     Inr ([Uninitialized, Uninitialized],
          \<lparr>pending = [],
           events = [Dispatched (SfTask 0 0), Dispatched (SfTask 0 1), Dispatched (SfTask 1 1),
                     Completed (SfTask 0 0), Completed (SfTask 0 1), Completed (SfTask 1 1)]\<rparr>)"
    using T [THEN conjunct1, rule_format, OF a] unfolding c
    by (simp add: numeral_2_eq_2)
  have e: "startup 53 2048 (1 / 32) 8 2 = Inl AssertionFailed"
    using U [THEN conjunct2, THEN conjunct2, THEN conjunct1, rule_format, OF b] by simp
  have f: "length (sf_tasks 2) = 3" "distinct (sf_tasks 2)"
    "set (sf_tasks 2) = {SfTask 0 0, SfTask 0 1, SfTask 1 1}"
    unfolding c by simp_all
  from a b d e f show ?thesis
    by blast
qed

subsection \<open>The filter bounds\<close>

text \<open>
  C5. When the job document has neither \<^verbatim>\<open>charge_lb\<close> nor \<^verbatim>\<open>charge_ub\<close>, the bounds of
  the charge filter are \<^verbatim>\<open>default_nrb_lb\<close> and \<^verbatim>\<open>default_nrb_ub\<close>, which are 2 and 9;
  \<^verbatim>\<open>default_charge_lb\<close> and \<^verbatim>\<open>default_charge_ub\<close>, both 0, have no influence on the
  bounds of any job.
\<close>

theorem charge_bounds_fallback:
  assumes "p ''charge_lb'' = None" and "p ''charge_ub'' = None"
  shows "charge_lb (job_bounds D p) = real (default_nrb_lb D)
    \<and> charge_ub (job_bounds D p) = real (default_nrb_ub D)
    \<and> charge_lb (job_bounds main_defaults p) = 2
    \<and> charge_ub (job_bounds main_defaults p) = 9
    \<and> default_charge_lb main_defaults = 0
    \<and> default_charge_ub main_defaults = 0
    \<and> job_bounds (D\<lparr>default_charge_lb := a, default_charge_ub := b\<rparr>) q = job_bounds D q"
  using assms by (simp add: job_bounds_def ok_or_def main_defaults_def)

theorem charge_bounds_fallback_witness:
  "(Map.empty :: job_document) ''charge_lb'' = None
   \<and> (Map.empty :: job_document) ''charge_ub'' = None
   \<and> charge_lb (job_bounds main_defaults Map.empty) = 2
   \<and> charge_ub (job_bounds main_defaults Map.empty) = 9
   \<and> default_charge_lb main_defaults = 0
   \<and> default_charge_ub main_defaults = 0
   \<and> job_bounds (main_defaults\<lparr>default_charge_lb := - 1, default_charge_ub := 1\<rparr>)
        [''charge_lb'' \<mapsto> - 1]
      = job_bounds main_defaults [''charge_lb'' \<mapsto> - 1]"
  using charge_bounds_fallback [where p = Map.empty and D = main_defaults and a = "- 1"
      and b = 1 and q = "[''charge_lb'' \<mapsto> - 1]"]
  by simp

subsection \<open>The slice table\<close>

lemma slices_length: "length slices = 101"
  by (simp add: slices_def)

subsection \<open>The descriptor line\<close>

lemma right_text_columns:
  assumes "j \<le> length line"
  shows "right_text line i j = columns line (Suc i) j"
proof (rule nth_equalityI)
  show "length (right_text line i j) = length (columns line (Suc i) j)"
    using assms by (simp add: right_text_def columns_def del: upt_Suc)
next
  fix k assume "k < length (right_text line i j)"
  then show "right_text line i j ! k = columns line (Suc i) j ! k"
    using assms by (simp add: right_text_def columns_def del: upt_Suc)
qed

text \<open>
  C6. The descriptor fields of the first line of a ligand record are read from these
  byte columns, counted from 1 and inclusive: the compound identifier from 11 to 18,
  \<open>mwt\<close> from 22 to 28, \<open>logp\<close> from 31 to 37, \<open>ad\<close> from 40 to 46, \<open>pd\<close> from 49 to 55,
  \<open>hbd\<close> from 58 to 59, \<open>hba\<close> from 62 to 63, \<open>tpsa\<close> from 66 to 67, \<open>charge\<close> from 70 to
  71 and \<open>nrb\<close> from 74 to 75, for a line that has these 75 columns.
\<close>

theorem descriptor_columns:
  assumes "75 \<le> length line"
  shows "read_descriptors c line =
     \<lparr>mwt = cast_fl c (columns line 22 28),
      logp = cast_fl c (columns line 31 37),
      ad = cast_fl c (columns line 40 46),
      pd = cast_fl c (columns line 49 55),
      hbd = cast_size_t c (columns line 58 59),
      hba = cast_size_t c (columns line 62 63),
      tpsa = cast_size_t c (columns line 66 67),
      charge = cast_int64 c (columns line 70 71),
      nrb = cast_size_t c (columns line 74 75)\<rparr>
   \<and> zinc_id line = Inr (columns line 11 18)"
proof -
  have "take 8 (drop 10 line) = right_text line 10 18"
    by (simp add: right_text_def)
  then have "zinc_id line = Inr (columns line 11 18)"
    using assms right_text_columns [of 18 line 10] by (simp add: zinc_id_def substr_def)
  moreover have "right_text line i j = columns line (Suc i) j" if "j \<le> 75" for i j
    using that assms by (intro right_text_columns) simp
  ultimately show ?thesis
    by (simp add: read_descriptors_def right_cast_def)
qed

theorem descriptor_columns_witness:
  "75 \<le> length (sample_line ''00000007'' ''450.000'')
   \<and> columns (sample_line ''00000007'' ''450.000'') 22 28 = ''450.000''
   \<and> columns (sample_line ''00000007'' ''450.000'') 70 71 = '' 3''
   \<and> read_descriptors sample_casts (sample_line ''00000007'' ''450.000'') =
       \<lparr>mwt = 450, logp = 251 / 100, ad = - 10, pd = - 20, hbd = 2, hba = 4, tpsa = 39,
        charge = 3, nrb = 5\<rparr>
   \<and> zinc_id (sample_line ''00000007'' ''450.000'') = Inr ''00000007''"
  using descriptor_columns [of "sample_line ''00000007'' ''450.000''" sample_casts]
  by (simp add: sample_line_def columns_def sample_casts_def)

subsection \<open>Grid maps on the fly\<close>

lemma initialized_resize: "initialized (resize n a)"
  by (cases n; cases a) auto

lemma initialized_populate: "initialized (populate g a) = initialized a"
  by (cases a) auto

lemma atl_length:
  "atom_types_loop XS n ts gms todo = Inr (gms', todo') \<Longrightarrow> length gms' = length gms"
  by (induction ts arbitrary: gms todo) (auto split: if_splits)

lemma atl_keep:
  "atom_types_loop XS n ts gms todo = Inr (gms', todo') \<Longrightarrow> t < length gms \<Longrightarrow>
   initialized (gms ! t) \<Longrightarrow> gms' ! t = gms ! t"
proof (induction ts arbitrary: gms todo)
  case Nil
  then show ?case by simp
next
  case (Cons u us)
  show ?case
  proof (cases "initialized (gms ! u)")
    case True
    with Cons show ?thesis by (auto split: if_splits)
  next
    case False
    with Cons.prems have ne: "u \<noteq> t" by auto
    from False Cons.prems have
      "atom_types_loop XS n us (gms[u := resize n (gms ! u)]) (todo @ [u]) = Inr (gms', todo')"
      by (auto split: if_splits)
    from Cons.IH [OF this] Cons.prems ne show ?thesis by simp
  qed
qed

lemma atl_todo:
  "atom_types_loop XS n ts gms todo = Inr (gms', todo') \<Longrightarrow>
   \<exists>new. todo' = todo @ new \<and> set new = {t \<in> set ts. \<not> initialized (gms ! t)} \<and> distinct new"
proof (induction ts arbitrary: gms todo)
  case Nil
  then show ?case by simp
next
  case (Cons u us)
  from Cons.prems have u: "u < XS" "u < length gms" by (auto split: if_splits)
  show ?case
  proof (cases "initialized (gms ! u)")
    case True
    with Cons.prems u have "atom_types_loop XS n us gms todo = Inr (gms', todo')" by simp
    from Cons.IH [OF this] True show ?thesis by auto
  next
    case False
    with Cons.prems u have
      "atom_types_loop XS n us (gms[u := resize n (gms ! u)]) (todo @ [u]) = Inr (gms', todo')"
      by simp
    from Cons.IH [OF this] obtain new where new: "todo' = (todo @ [u]) @ new"
      "set new = {t \<in> set us. \<not> initialized (gms[u := resize n (gms ! u)] ! t)}" "distinct new"
      by blast
    have "set new = {t \<in> set us. t \<noteq> u \<and> \<not> initialized (gms ! t)}"
      using new(2) u by (auto simp: nth_list_update initialized_resize)
    with new False have "todo' = todo @ (u # new) \<and>
       set (u # new) = {t \<in> set (u # us). \<not> initialized (gms ! t)} \<and> distinct (u # new)"
      by auto
    then show ?thesis by blast
  qed
qed

lemma atl_initialized:
  "atom_types_loop XS n ts gms todo = Inr (gms', todo') \<Longrightarrow> t < length gms \<Longrightarrow>
   initialized (gms' ! t) \<longleftrightarrow> initialized (gms ! t) \<or> t \<in> set ts"
proof (induction ts arbitrary: gms todo)
  case Nil
  then show ?case by simp
next
  case (Cons u us)
  from Cons.prems have u: "u < XS" "u < length gms" by (auto split: if_splits)
  show ?case
  proof (cases "initialized (gms ! u)")
    case True
    with Cons.prems u have "atom_types_loop XS n us gms todo = Inr (gms', todo')" by simp
    from Cons.IH [OF this] Cons.prems(2) True show ?thesis by auto
  next
    case False
    with Cons.prems u have
      "atom_types_loop XS n us (gms[u := resize n (gms ! u)]) (todo @ [u]) = Inr (gms', todo')"
      by simp
    from Cons.IH [OF this] Cons.prems(2) u show ?thesis
      by (auto simp: nth_list_update initialized_resize)
  qed
qed

lemma atl_all_initialized:
  "\<forall>t\<in>set ts. t < XS \<and> t < length gms \<and> initialized (gms ! t) \<Longrightarrow>
   atom_types_loop XS n ts gms todo = Inr (gms, todo)"
  by (induction ts) auto

lemma gmt_length: "length (grid_map_task sl ts x gms) = length gms"
  unfolding grid_map_task_def by (induction ts arbitrary: gms) auto

lemma gmt_other: "t \<notin> set ts \<Longrightarrow> grid_map_task sl ts x gms ! t = gms ! t"
  unfolding grid_map_task_def by (induction ts arbitrary: gms) auto

lemma gmts_length: "length (fold (grid_map_task sl ts) xs gms) = length gms"
  by (induction xs arbitrary: gms) (auto simp: gmt_length)

lemma gmts_other: "t \<notin> set ts \<Longrightarrow> fold (grid_map_task sl ts) xs gms ! t = gms ! t"
  by (induction xs arbitrary: gms) (auto simp: gmt_other)

lemma cgm_cases:
  assumes "create_grid_maps w lig st = Inr st'"
  obtains gms todo where
    "atom_types_loop (XS_TYPE_SIZE w) (num_probes w) (atom_types lig) (grid_maps st) [] = Inr (gms, todo)"
    "todo = [] \<longrightarrow> st' = st\<lparr>grid_maps := gms\<rparr>"
    "todo \<noteq> [] \<longrightarrow> st' = st\<lparr>grid_maps := fold (grid_map_task (slab w) todo) [0..<fst (num_probes w)] gms,
         tp := tp_sync (fold future_get (gm_tasks (fst (num_probes w)) todo)
                 (tp_run (gm_tasks (fst (num_probes w)) todo) (tp st)))\<rparr>"
  using assms unfolding create_grid_maps_def
  by (auto split: sum.splits if_splits simp: Let_def)

lemma cgm_keep:
  assumes "create_grid_maps w lig st = Inr st'"
  shows "length (grid_maps st') = length (grid_maps st)"
    and "t < length (grid_maps st) \<Longrightarrow> initialized (grid_maps st ! t) \<Longrightarrow>
         grid_maps st' ! t = grid_maps st ! t"
    and "csv st' = csv st"
proof -
  from assms obtain gms todo where *:
    "atom_types_loop (XS_TYPE_SIZE w) (num_probes w) (atom_types lig) (grid_maps st) [] = Inr (gms, todo)"
    "todo = [] \<longrightarrow> st' = st\<lparr>grid_maps := gms\<rparr>"
    "todo \<noteq> [] \<longrightarrow> st' = st\<lparr>grid_maps := fold (grid_map_task (slab w) todo) [0..<fst (num_probes w)] gms,
         tp := tp_sync (fold future_get (gm_tasks (fst (num_probes w)) todo)
                 (tp_run (gm_tasks (fst (num_probes w)) todo) (tp st)))\<rparr>"
    by (rule cgm_cases)
  show "length (grid_maps st') = length (grid_maps st)"
    using * atl_length [OF *(1)] by (cases "todo = []") (simp_all add: gmts_length)
  show "csv st' = csv st" using * by (cases "todo = []") simp_all
  assume t: "t < length (grid_maps st)" "initialized (grid_maps st ! t)"
  from atl_todo [OF *(1)] t have "t \<notin> set todo" by auto
  then show "grid_maps st' ! t = grid_maps st ! t"
    using * atl_keep [OF *(1) t] by (cases "todo = []") (simp_all add: gmts_other)
qed

lemma pl_cases:
  assumes "process_ligand w B i st = Inr st'"
  obtains (skip) "\<not> passes_filters B (read_descriptors (conversions w) (ligand_line w i))" "st' = st"
  | (dock) st1 where "passes_filters B (read_descriptors (conversions w) (ligand_line w i))"
      "10 \<le> length (ligand_line w i)"
      "create_grid_maps w (parse_ligand w []) st = Inr st1"
      "st' = st1\<lparr>tp := monte_carlo (tp st1),
                 csv := dump_best w i (take 8 (drop 10 (ligand_line w i))) (parse_ligand w [])
                          (merge_results w i (parse_ligand w [])) (csv st1)\<rparr>"
  using assms unfolding process_ligand_def zinc_id_def substr_def
  by (auto split: sum.splits if_splits simp: Let_def)

lemma pl_keep:
  assumes "process_ligand w B i st = Inr st'"
  shows "length (grid_maps st') = length (grid_maps st) \<and>
    (\<forall>t<length (grid_maps st). initialized (grid_maps st ! t) \<longrightarrow> grid_maps st' ! t = grid_maps st ! t)"
  using assms by (cases rule: pl_cases) (auto simp: cgm_keep)

lemma fl_keep:
  "for_ligands w B is st = Inr st' \<Longrightarrow>
   length (grid_maps st') = length (grid_maps st) \<and>
    (\<forall>t<length (grid_maps st). initialized (grid_maps st ! t) \<longrightarrow> grid_maps st' ! t = grid_maps st ! t)"
proof (induction "is" arbitrary: st)
  case Nil
  then show ?case by simp
next
  case (Cons i "is")
  from Cons.prems obtain st1 where 1: "process_ligand w B i st = Inr st1"
    and 2: "for_ligands w B is st1 = Inr st'"
    by (auto split: sum.splits)
  from pl_keep [OF 1] Cons.IH [OF 2] show ?case by auto
qed

lemma atl_bounds:
  "atom_types_loop XS n ts gms todo = Inr r \<Longrightarrow> \<forall>t\<in>set ts. t < XS \<and> t < length gms"
proof (induction ts arbitrary: gms todo)
  case Nil
  then show ?case by simp
next
  case (Cons u us)
  from Cons.prems have u: "u < XS" "u < length gms" by (auto split: if_splits)
  show ?case
  proof (cases "initialized (gms ! u)")
    case True
    with Cons.prems u have "atom_types_loop XS n us gms todo = Inr r" by simp
    from Cons.IH [OF this] u show ?thesis by simp
  next
    case False
    with Cons.prems u have
      "atom_types_loop XS n us (gms[u := resize n (gms ! u)]) (todo @ [u]) = Inr r"
      by simp
    from Cons.IH [OF this] u show ?thesis by simp
  qed
qed

lemma cgm_events:
  assumes "create_grid_maps w lig st = Inr st'" and "pending (tp st) = []"
    and "atom_types_loop (XS_TYPE_SIZE w) (num_probes w) (atom_types lig) (grid_maps st) [] = Inr (gms, batch)"
  shows "tp st' = (if batch = [] then tp st
     else \<lparr>pending = [], events = events (tp st) @ map Dispatched (gm_tasks (fst (num_probes w)) batch)
            @ map Completed (gm_tasks (fst (num_probes w)) batch)\<rparr>)"
  using assms unfolding create_grid_maps_def
  by (auto simp: Let_def run_get_sync)

lemma cgm_pending:
  assumes "create_grid_maps w lig st = Inr st'" and "pending (tp st) = []"
  shows "pending (tp st') = []"
  using assms unfolding create_grid_maps_def
  by (auto simp: Let_def run_get_sync split: sum.splits if_splits)

lemma cgm_all_initialized:
  assumes "create_grid_maps w lig st = Inr st'"
    and "\<forall>t\<in>set (atom_types lig). initialized (grid_maps st ! t)"
  shows "st' = st"
proof -
  from assms(1) obtain r where r:
    "atom_types_loop (XS_TYPE_SIZE w) (num_probes w) (atom_types lig) (grid_maps st) [] = Inr r"
    unfolding create_grid_maps_def by (auto split: sum.splits)
  from atl_bounds [OF r] assms(2) have
    "atom_types_loop (XS_TYPE_SIZE w) (num_probes w) (atom_types lig) (grid_maps st) [] = Inr (grid_maps st, [])"
    by (intro atl_all_initialized) auto
  with assms(1) show ?thesis unfolding create_grid_maps_def by simp
qed

lemma dump_best_eq:
  "dump_best w i zid lig results os =
     (if results = [] then os
      else os\<lparr>written := written os @ zid @ '','' @
                 fl_digits w (floatfield os) (precision os) (destroyed_e_nd w i) @ [CHR 0x0A]\<rparr>)"
  by (simp add: dump_best_def Let_def max_conformations_def read_e_nd_def ptr_vector_clear_def
      put_def put_fl_def)

lemma adjust_best_e_nd:
  "results \<noteq> [] \<Longrightarrow>
   read_e_nd v (adjust_best lig results) 0 = result_f (results ! 0) * flexibility_penalty_factor lig"
  by (simp add: adjust_best_def read_e_nd_def)

lemma pl_skip:
  "\<not> passes_filters B (read_descriptors (conversions w) (ligand_line w i)) \<Longrightarrow>
   process_ligand w B i st = Inr st"
  by (simp add: process_ligand_def)

lemma pl_events:
  assumes "process_ligand w B i st = Inr st'" and "pending (tp st) = []"
    and "passes_filters B (read_descriptors (conversions w) (ligand_line w i))"
    and "atom_types_loop (XS_TYPE_SIZE w) (num_probes w) (atom_types (parse_ligand w []))
           (grid_maps st) [] = Inr (gms, batch)"
  shows "tp st' = \<lparr>pending = [], events = events (tp st) @
     (if batch = [] then []
      else map Dispatched (gm_tasks (fst (num_probes w)) batch)
             @ map Completed (gm_tasks (fst (num_probes w)) batch))
     @ map Dispatched mc_tasks @ map Completed mc_tasks\<rparr>"
  using assms(1)
proof (cases rule: pl_cases)
  case skip
  with assms(3) show ?thesis by simp
next
  case (dock st1)
  from cgm_events [OF dock(3) assms(2) assms(4)] cgm_pending [OF dock(3) assms(2)] dock(4)
  show ?thesis by (simp add: monte_carlo_events)
qed

lemma pl_pending:
  assumes "process_ligand w B i st = Inr st'" and "pending (tp st) = []"
  shows "pending (tp st') = []"
  using assms(1)
proof (cases rule: pl_cases)
  case skip
  with assms(2) show ?thesis by simp
next
  case (dock st1)
  from cgm_pending [OF dock(3) assms(2)] dock(4)
  show ?thesis by (simp add: monte_carlo_events)
qed

lemma pl_csv:
  assumes "process_ligand w B i st = Inr st'"
  shows "csv st' = (if survives w B i
     then (csv st)\<lparr>written := written (csv st) @ take 8 (drop 10 (ligand_line w i)) @ '','' @
                 fl_digits w (floatfield (csv st)) (precision (csv st)) (destroyed_e_nd w i) @ [CHR 0x0A]\<rparr>
     else csv st)"
  using assms
proof (cases rule: pl_cases)
  case skip
  then show ?thesis by (simp add: survives_def)
next
  case (dock st1)
  from cgm_keep(3) [OF dock(3)] dock(1,4)
  show ?thesis by (simp add: dump_best_eq survives_def)
qed

subsection \<open>The ligands of a slice and the job\<close>

lemma fl_append:
  "for_ligands w B (xs @ ys) st =
     (case for_ligands w B xs st of Inl e \<Rightarrow> Inl e | Inr st1 \<Rightarrow> for_ligands w B ys st1)"
  by (induction xs arbitrary: st) (auto split: sum.splits)

lemma fl_all_filtered:
  "\<forall>i\<in>set is. \<not> passes_filters B (read_descriptors (conversions w) (ligand_line w i)) \<Longrightarrow>
   for_ligands w B is st = Inr st"
  by (induction "is") (simp_all add: pl_skip)

lemma fl_csv:
  "for_ligands w B is st = Inr st' \<Longrightarrow> floatfield (csv st) = Fixed \<Longrightarrow> precision (csv st) = 3 \<Longrightarrow>
   csv st' = (csv st)\<lparr>written := written (csv st) @
                concat (map (csv_line w) (filter (survives w B) is))\<rparr>"
proof (induction "is" arbitrary: st)
  case Nil
  then show ?case by simp
next
  case (Cons i "is")
  from Cons.prems(1) obtain st1 where 1: "process_ligand w B i st = Inr st1"
    and 2: "for_ligands w B is st1 = Inr st'"
    by (auto split: sum.splits)
  from pl_csv [OF 1] Cons.prems(2,3) have 3: "csv st1 =
     (csv st)\<lparr>written := written (csv st) @ (if survives w B i then csv_line w i else [])\<rparr>"
    by (simp add: csv_line_def)
  then have "floatfield (csv st1) = Fixed" "precision (csv st1) = 3"
    using Cons.prems(2,3) by simp_all
  from Cons.IH [OF 2 this] 3 show ?case by simp
qed

lemma open_csv_eq:
  "open_csv fs = (fs(csv_path \<mapsto> []), \<lparr>written = [CHR 0x0A], floatfield = Fixed, precision = 3\<rparr>)"
  by (simp add: open_csv_def setprecision_def put_def setf_fixed_def ofstream_open_def)

lemma skip_screened_eq: "skip_screened fs start_lig = start_lig"
  by (simp add: skip_screened_def)

lemma execute_job_eq:
  "slice_range s = Inr (start_lig, end_lig) \<Longrightarrow>
   execute_job w p s fs gms P =
     (case for_ligands w (job_bounds main_defaults p) [start_lig..<end_lig]
             \<lparr>grid_maps = gms, tp = P,
              csv = \<lparr>written = [CHR 0x0A], floatfield = Fixed, precision = 3\<rparr>\<rparr> of
        Inl e \<Rightarrow> Inl e
      | Inr st \<Rightarrow> Inr (fs(csv_path \<mapsto> written (csv st)), grid_maps st, tp st))"
  by (auto simp: execute_job_def skip_screened_eq open_csv_eq close_csv_def split: sum.splits)

lemma execute_job_csv:
  assumes "execute_job w p s fs gms P = Inr (fs', gms', P')"
    and "slice_range s = Inr (start_lig, end_lig)"
  shows "fs' csv_path = Some ([CHR 0x0A] @ concat (map (csv_line w)
           (filter (survives w (job_bounds main_defaults p)) [start_lig..<end_lig])))"
proof -
  from assms obtain st where st:
    "for_ligands w (job_bounds main_defaults p) [start_lig..<end_lig]
             \<lparr>grid_maps = gms, tp = P,
              csv = \<lparr>written = [CHR 0x0A], floatfield = Fixed, precision = 3\<rparr>\<rparr> = Inr st"
    and fs': "fs' = fs(csv_path \<mapsto> written (csv st))"
    by (auto simp: execute_job_eq split: sum.splits)
  from fl_csv [OF st] fs' show ?thesis by simp
qed

lemma execute_job_old_csv:
  "execute_job w p s (fs(csv_path \<mapsto> old)) gms P = execute_job w p s (fs(csv_path := None)) gms P"
proof (cases "slice_range s")
  case (Inl e)
  then show ?thesis by (simp add: execute_job_def)
next
  case (Inr r)
  then obtain a b where "slice_range s = Inr (a, b)" by (cases r) simp
  then show ?thesis by (simp add: execute_job_eq split: sum.splits)
qed

subsection \<open>The small library\<close>

lemma sample_bounds_eq:
  "sample_bounds = \<lparr>mwt_lb = 400, mwt_ub = 500, logp_lb = - 1, logp_ub = 6, ad_lb = - 50, ad_ub = 50,
     pd_lb = - 150, pd_ub = 0, hbd_lb = 1, hbd_ub = 6, hba_lb = 1, hba_ub = 10, tpsa_lb = 20, tpsa_ub = 80,
     charge_lb = 2, charge_ub = 9, nrb_lb = 2, nrb_ub = 9\<rparr>"
  by (simp add: sample_bounds_def job_bounds_def main_defaults_def ok_or_def)

lemma sample_descriptors:
  "length ident = 8 \<Longrightarrow> read_descriptors sample_casts (sample_line ident ''450.000'') =
     \<lparr>mwt = 450, logp = 251 / 100, ad = - 10, pd = - 20, hbd = 2, hba = 4, tpsa = 39, charge = 3, nrb = 5\<rparr>"
  by (simp add: read_descriptors_def right_cast_def right_text_def sample_line_def sample_casts_def)

lemma sample_descriptors_light:
  "length ident = 8 \<Longrightarrow> read_descriptors sample_casts (sample_line ident ''399.900'') =
     \<lparr>mwt = 3999 / 10, logp = 251 / 100, ad = - 10, pd = - 20, hbd = 2, hba = 4, tpsa = 39, charge = 3, nrb = 5\<rparr>"
  by (simp add: read_descriptors_def right_cast_def right_text_def sample_line_def sample_casts_def)

lemma sample_passes:
  "length ident = 8 \<Longrightarrow>
   passes_filters sample_bounds (read_descriptors sample_casts (sample_line ident ''450.000''))"
  by (simp add: sample_descriptors sample_bounds_eq passes_filters_def)

lemma sample_fails:
  "length ident = 8 \<Longrightarrow>
   \<not> passes_filters sample_bounds (read_descriptors sample_casts (sample_line ident ''399.900''))"
  by (simp add: sample_descriptors_light sample_bounds_eq passes_filters_def)

lemma sample_passes_iff:
  "passes_filters sample_bounds (read_descriptors (conversions sample_world) (ligand_line sample_world i))
     \<longleftrightarrow> i = 0 \<or> i = 2"
  by (simp add: sample_world_def sample_passes sample_fails)

lemma quiet_fails:
  "\<not> passes_filters sample_bounds (read_descriptors (conversions quiet_world) (ligand_line quiet_world i))"
  by (simp add: quiet_world_def sample_world_def sample_fails)

lemma sample_merge:
  "merge_results sample_world i lig = (if i = 0 then [\<lparr>result_f = - 9, result_e_nd = 0\<rparr>] else [])"
proof -
  have "[0..<num_mc_tasks] = 0 # [1..<num_mc_tasks]"
    by (simp add: num_mc_tasks_def upt_rec [of 0])
  moreover have "fold (\<lambda>k results.
              fold (\<lambda>r rs. add_to_result_container sample_world rs r e)
                (task_results sample_world i k) results) [1..<num_mc_tasks] a = a" for a e
    by (rule fold_noop) (auto simp: sample_world_def)
  ultimately show ?thesis
    by (simp add: merge_results_def Let_def) (simp add: sample_world_def)
qed

lemma sample_survives: "survives sample_world sample_bounds i \<longleftrightarrow> i = 0"
  by (auto simp: survives_def sample_passes_iff sample_merge)

lemma sample_step_0: "process_ligand sample_world sample_bounds 0 sample_state = Inr sample_docked"
proof -
  have 1: "passes_filters sample_bounds
      (read_descriptors (conversions sample_world) (ligand_line sample_world 0))"
    by (simp add: sample_passes_iff)
  have 2: "zinc_id (ligand_line sample_world 0) = Inr ''00000007''"
    by (simp add: zinc_id_def substr_def sample_line_def sample_world_def)
  have 3: "create_grid_maps sample_world (parse_ligand sample_world []) sample_state =
     Inr (sample_state\<lparr>grid_maps := grid_maps sample_docked,
        tp := \<lparr>pending = [], events = map Dispatched (gm_tasks 2 [0, 2]) @ map Completed (gm_tasks 2 [0, 2])\<rparr>\<rparr>)"
    by (simp add: create_grid_maps_def sample_world_def sample_state_def sample_docked_def
        numeral_3_eq_3 numeral_2_eq_2 Let_def run_get_sync new_thread_pool_def grid_map_task_def)
  show ?thesis
    by (simp add: process_ligand_def 1 2 3 Let_def monte_carlo_events sample_merge dump_best_eq)
       (simp add: sample_world_def sample_state_def sample_docked_def open_csv_eq)
qed

lemma sample_step_1: "i \<noteq> 0 \<Longrightarrow> i \<noteq> 2 \<Longrightarrow> process_ligand sample_world sample_bounds i st = Inr st"
  by (simp add: pl_skip sample_passes_iff)

lemma sample_step_2: "process_ligand sample_world sample_bounds 2 sample_docked = Inr sample_final"
proof -
  have 1: "passes_filters sample_bounds
      (read_descriptors (conversions sample_world) (ligand_line sample_world 2))"
    by (simp add: sample_passes_iff)
  have 2: "zinc_id (ligand_line sample_world 2) = Inr ''00000009''"
    by (simp add: zinc_id_def substr_def sample_line_def sample_world_def)
  have 3: "create_grid_maps sample_world (parse_ligand sample_world []) sample_docked = Inr sample_docked"
    by (simp add: create_grid_maps_def sample_world_def sample_docked_def)
  show ?thesis
    by (simp add: process_ligand_def 1 2 3 Let_def sample_merge dump_best_eq)
       (simp add: sample_final_def sample_docked_def monte_carlo_events)
qed

lemma sample_run: "for_ligands sample_world sample_bounds [0, 1, 2] sample_state = Inr sample_final"
  by (simp add: sample_step_0 sample_step_1 sample_step_2)

lemma sample_slice:
  "for_ligands sample_world sample_bounds [0..<121712] sample_state = Inr sample_final"
proof -
  have "[0..<121712] = [0..<3] @ [3..<121712]"
    using upt_add_eq_append [of 0 3 121709] by (simp del: upt_rec_numeral)
  moreover have "[0..<3] = [0, 1, 2]"
    by (simp add: numeral_3_eq_3 numeral_2_eq_2)
  ultimately have split: "[0..<121712] = [0, 1, 2] @ [3..<121712]"
    by (simp only:)
  have rest: "for_ligands sample_world sample_bounds [3..<121712] sample_final = Inr sample_final"
    by (rule fl_all_filtered) (simp add: sample_passes_iff del: upt_rec_numeral)
  show ?thesis by (simp only: split fl_append sample_run rest sum.case)
qed

lemma quiet_slice: "for_ligands quiet_world sample_bounds is st = Inr st"
  by (rule fl_all_filtered) (simp add: quiet_fails)

lemma sample_job:
  "execute_job sample_world Map.empty 0 fs (replicate 3 Uninitialized) new_thread_pool =
     Inr (fs(csv_path \<mapsto> written (csv sample_final)), grid_maps sample_final, tp sample_final)"
proof -
  have "slice_range 0 = Inr (0, 121712)"
    by (simp add: slice_range_def slices_at_def slices_def)
  moreover have "\<lparr>grid_maps = replicate 3 Uninitialized, tp = new_thread_pool,
      csv = \<lparr>written = [CHR 0x0A], floatfield = Fixed, precision = 3\<rparr>\<rparr> = sample_state"
    by (simp add: sample_state_def open_csv_eq)
  ultimately show ?thesis
    by (simp add: execute_job_eq sample_bounds_def [symmetric] sample_slice del: upt_rec_numeral)
qed

lemma quiet_job:
  "execute_job quiet_world Map.empty 0 fs gms P = Inr (fs(csv_path \<mapsto> [CHR 0x0A]), gms, P)"
proof -
  have "slice_range 0 = Inr (0, 121712)"
    by (simp add: slice_range_def slices_at_def slices_def)
  then show ?thesis
    by (simp add: execute_job_eq sample_bounds_def [symmetric] quiet_slice del: upt_rec_numeral)
qed

lemma filter_first: "0 < n \<Longrightarrow> filter (\<lambda>i. i = 0) [0..<n] = [0]"
proof -
  assume "0 < n"
  then have "[0..<n] = 0 # [Suc 0..<n]" by (simp add: upt_rec [of 0])
  moreover have "filter (\<lambda>i. i = 0) [Suc 0..<n] = []" by (simp del: upt_Suc)
  ultimately show ?thesis by simp
qed

lemma sample_survivors: "0 < n \<Longrightarrow> filter (survives sample_world sample_bounds) [0..<n] = [0]"
proof -
  have "survives sample_world sample_bounds = (\<lambda>i. i = 0)"
    by (rule ext) (simp add: sample_survives)
  then show "0 < n \<Longrightarrow> filter (survives sample_world sample_bounds) [0..<n] = [0]"
    by (simp only: filter_first)
qed

lemma quiet_survivors: "filter (survives quiet_world sample_bounds) is = []"
  by (simp add: survives_def quiet_fails)

lemma sample_csv_line: "csv_line sample_world 0 = ''00000007,0.000'' @ [CHR 0x0A]"
  by (simp add: csv_line_def sample_world_def sample_line_def)

lemma pl_all_initialized:
  assumes "process_ligand w B i st = Inr st'" and "pending (tp st) = []"
    and "\<forall>t\<in>set (atom_types (parse_ligand w [])). initialized (grid_maps st ! t)"
  shows "grid_maps st' = grid_maps st \<and>
     (events (tp st') = events (tp st) \<or>
      events (tp st') = events (tp st) @ map Dispatched mc_tasks @ map Completed mc_tasks)"
  using assms(1)
proof (cases rule: pl_cases)
  case skip
  then show ?thesis by simp
next
  case (dock st1)
  from cgm_all_initialized [OF dock(3) assms(3)] have "st1 = st" .
  with dock(4) assms(2) show ?thesis by (simp add: monte_carlo_events)
qed


text \<open>The pool and the grid maps through the ligands of a job.\<close>

lemma fl_pending:
  "for_ligands w B is st = Inr st' \<Longrightarrow> pending (tp st) = [] \<Longrightarrow> pending (tp st') = []"
proof (induction "is" arbitrary: st)
  case Nil
  then show ?case by simp
next
  case (Cons i "is")
  from Cons.prems(1) obtain st1 where 1: "process_ligand w B i st = Inr st1"
    and 2: "for_ligands w B is st1 = Inr st'"
    by (auto split: sum.splits)
  from pl_pending [OF 1 Cons.prems(2)] Cons.IH [OF 2] show ?case by simp
qed

lemma execute_job_keep:
  assumes "execute_job w p s fs gms P = Inr (fs', gms', P')"
    and "t < length gms" and "initialized (gms ! t)"
  shows "gms' ! t = gms ! t"
proof -
  from assms(1) obtain a b where r: "slice_range s = Inr (a, b)"
    by (cases "slice_range s") (auto simp: execute_job_def)
  with assms(1) obtain st where st:
    "for_ligands w (job_bounds main_defaults p) [a..<b]
             \<lparr>grid_maps = gms, tp = P,
              csv = \<lparr>written = [CHR 0x0A], floatfield = Fixed, precision = 3\<rparr>\<rparr> = Inr st"
    and g: "gms' = grid_maps st"
    by (auto simp: execute_job_eq split: sum.splits)
  from fl_keep [OF st] assms(2,3) g show ?thesis by simp
qed

lemma execute_job_pending:
  assumes "execute_job w p s fs gms P = Inr (fs', gms', P')" and "pending P = []"
  shows "pending P' = []"
proof -
  from assms(1) obtain a b where r: "slice_range s = Inr (a, b)"
    by (cases "slice_range s") (auto simp: execute_job_def)
  with assms(1) obtain st where st:
    "for_ligands w (job_bounds main_defaults p) [a..<b]
             \<lparr>grid_maps = gms, tp = P,
              csv = \<lparr>written = [CHR 0x0A], floatfield = Fixed, precision = 3\<rparr>\<rparr> = Inr st"
    and g: "P' = tp st"
    by (auto simp: execute_job_eq split: sum.splits)
  from fl_pending [OF st] assms(2) g show ?thesis by simp
qed

subsection \<open>The slice of a job\<close>

text \<open>
  C2, as amended. The table has 101 elements and so bounds 100 slices. For every slice
  index \<open>s < 100\<close> the job processes the ligands of the range
  \<open>[slices[s], slices[s + 1])\<close>: slice 0 covers the ligands 0 to 121711 and slice 99, the
  last one, the ligands 12049476 to 12171186. For \<open>s \<ge> 100\<close> the table is read out of
  its bounds.
\<close>

theorem slice_range_of_table:
  "length slices = 101
   \<and> (s < 100 \<longrightarrow> slice_range s = Inr (slices ! s, slices ! (s + 1)))
   \<and> (s < 100 \<longrightarrow> execute_job w p s fs gms P =
        (case for_ligands w (job_bounds main_defaults p) [slices ! s..<slices ! (s + 1)]
                \<lparr>grid_maps = gms, tp = P,
                 csv = \<lparr>written = [CHR 0x0A], floatfield = Fixed, precision = 3\<rparr>\<rparr> of
           Inl e \<Rightarrow> Inl e
         | Inr st \<Rightarrow> Inr (fs(csv_path \<mapsto> written (csv st)), grid_maps st, tp st)))
   \<and> (100 \<le> s \<longrightarrow> slice_range s = Inl OutOfBounds)
   \<and> (100 \<le> s \<longrightarrow> execute_job w p s fs gms P = Inl OutOfBounds)
   \<and> slice_range 0 = Inr (0, 121712)
   \<and> slice_range 99 = Inr (12049476, 12171187)"
proof -
  have 0: "slice_range 0 = Inr (0, 121712)"
    by (simp add: slice_range_def slices_at_def slices_def)
  have 99: "slice_range 99 = Inr (12049476, 12171187)"
    by (simp add: slice_range_def slices_at_def slices_def)
  have lt: "slice_range s = Inr (slices ! s, slices ! (s + 1))" if "s < 100"
    using that by (simp add: slice_range_def slices_at_def slices_length)
  have ge: "slice_range s = Inl OutOfBounds" if "100 \<le> s"
    using that by (simp add: slice_range_def slices_at_def slices_length)
  from ge have "execute_job w p s fs gms P = Inl OutOfBounds" if "100 \<le> s"
    using that by (simp add: execute_job_def)
  with 0 99 lt ge execute_job_eq [OF lt, of w p fs gms P] slices_length show ?thesis
    by blast
qed

theorem slice_range_of_table_witness:
  "(0 :: nat) < 100 \<and> slice_range 0 = Inr (0, 121712)
   \<and> execute_job sample_world Map.empty 0 Map.empty (replicate 3 Uninitialized) new_thread_pool =
       (case for_ligands sample_world (job_bounds main_defaults Map.empty) [0..<121712]
                \<lparr>grid_maps = replicate 3 Uninitialized, tp = new_thread_pool,
                 csv = \<lparr>written = [CHR 0x0A], floatfield = Fixed, precision = 3\<rparr>\<rparr> of
           Inl e \<Rightarrow> Inl e
         | Inr st \<Rightarrow> Inr ([csv_path \<mapsto> written (csv st)], grid_maps st, tp st))
   \<and> (42 :: nat) < 100 \<and> slice_range 42 = Inr (5111904, 5233616)
   \<and> (100 :: nat) \<le> 100 \<and> slice_range 100 = Inl OutOfBounds
   \<and> execute_job sample_world Map.empty 100 Map.empty (replicate 3 Uninitialized) new_thread_pool
        = Inl OutOfBounds"
proof -
  have n: "slices ! 0 = 0" "slices ! (0 + 1) = 121712" "slices ! 42 = 5111904"
    "slices ! (42 + 1) = 5233616"
    by (simp_all add: slices_def)
  note T0 = slice_range_of_table [of 0 sample_world Map.empty Map.empty
      "replicate 3 Uninitialized" new_thread_pool]
  note T42 = slice_range_of_table [of 42]
  note T100 = slice_range_of_table [of 100 sample_world Map.empty Map.empty
      "replicate 3 Uninitialized" new_thread_pool]
  from T0 have a:
    "execute_job sample_world Map.empty 0 Map.empty (replicate 3 Uninitialized) new_thread_pool =
       (case for_ligands sample_world (job_bounds main_defaults Map.empty) [0..<121712]
                \<lparr>grid_maps = replicate 3 Uninitialized, tp = new_thread_pool,
                 csv = \<lparr>written = [CHR 0x0A], floatfield = Fixed, precision = 3\<rparr>\<rparr> of
           Inl e \<Rightarrow> Inl e
         | Inr st \<Rightarrow> Inr ([csv_path \<mapsto> written (csv st)], grid_maps st, tp st))"
    by (simp only: n; simp)
  from T0 have b: "slice_range 0 = Inr (0, 121712)"
    by blast
  from T42 have c: "slice_range 42 = Inr (5111904, 5233616)"
    by (simp only: n; simp)
  from T100 have d: "slice_range 100 = Inl OutOfBounds"
    "execute_job sample_world Map.empty 100 Map.empty (replicate 3 Uninitialized) new_thread_pool
        = Inl OutOfBounds"
    by simp_all
  have e: "(0 :: nat) < 100" "(42 :: nat) < 100" "(100 :: nat) \<le> 100"
    by simp_all
  from a b c d e show ?thesis
    by (simp only: simp_thms)
qed

text \<open>
  C2, as the specification states it: slice 100 does not cover the ligands 12049476 to
  12171186, since \<^verbatim>\<open>slices[101]\<close> is beyond the table.
\<close>

theorem slice_100_counterexample:
  "slice_range 100 = Inl OutOfBounds \<and> slice_range 100 \<noteq> Inr (12049476, 12171187)"
  by (simp add: slice_range_def slices_at_def slices_length)

subsection \<open>The grid maps a ligand makes\<close>

lemma atl_nth:
  "atom_types_loop XS n ts gms todo = Inr (gms', todo') \<Longrightarrow> t < length gms \<Longrightarrow>
   gms' ! t = (if t \<in> set ts \<and> \<not> initialized (gms ! t) then resize n (gms ! t) else gms ! t)"
proof (induction ts arbitrary: gms todo)
  case Nil
  then show ?case by simp
next
  case (Cons u us)
  from Cons.prems have u: "u < XS" "u < length gms" by (auto split: if_splits)
  show ?case
  proof (cases "initialized (gms ! u)")
    case True
    with Cons.prems u have "atom_types_loop XS n us gms todo = Inr (gms', todo')" by simp
    from Cons.IH [OF this Cons.prems(2)] True show ?thesis by auto
  next
    case False
    with Cons.prems u have
      "atom_types_loop XS n us (gms[u := resize n (gms ! u)]) (todo @ [u]) = Inr (gms', todo')"
      by simp
    from Cons.IH [OF this] Cons.prems(2) u False show ?thesis
      by (cases "t = u") (simp_all add: initialized_resize)
  qed
qed

lemma gmt_initialized:
  "initialized (grid_map_task sl ts x gms ! t) = initialized (gms ! t)"
  unfolding grid_map_task_def
  by (induction ts arbitrary: gms) (auto simp: nth_list_update initialized_populate)

lemma gmts_initialized:
  "initialized (fold (grid_map_task sl ts) xs gms ! t) = initialized (gms ! t)"
  by (induction xs arbitrary: gms) (auto simp: gmt_initialized)

lemma gmts_nil: "fold (grid_map_task sl []) xs gms = gms"
  by (induction xs) (auto simp: grid_map_task_def)

lemma gm_dispatched:
  "(\<exists>ts x. Dispatched (GmTask ts x) \<in>
       set ((if todo = [] then [] else map Dispatched (gm_tasks k todo) @ map Completed (gm_tasks k todo))
             @ map Dispatched mc_tasks @ map Completed mc_tasks) \<and> t \<in> set ts)
   \<longleftrightarrow> 0 < k \<and> t \<in> set todo"
proof
  assume "\<exists>ts x. Dispatched (GmTask ts x) \<in>
       set ((if todo = [] then [] else map Dispatched (gm_tasks k todo) @ map Completed (gm_tasks k todo))
             @ map Dispatched mc_tasks @ map Completed mc_tasks) \<and> t \<in> set ts"
  then show "0 < k \<and> t \<in> set todo"
    by (auto simp: gm_tasks_def mc_tasks_def split: if_splits)
next
  assume *: "0 < k \<and> t \<in> set todo"
  then have "todo \<noteq> []" by auto
  moreover from * have "Dispatched (GmTask todo 0) \<in> set (map Dispatched (gm_tasks k todo))"
    by (auto simp: gm_tasks_def)
  ultimately show "\<exists>ts x. Dispatched (GmTask ts x) \<in>
       set ((if todo = [] then [] else map Dispatched (gm_tasks k todo) @ map Completed (gm_tasks k todo))
             @ map Dispatched mc_tasks @ map Completed mc_tasks) \<and> t \<in> set ts"
    using * by (intro exI [of _ todo] exI [of _ 0]) simp
qed

lemma pl_schedule:
  assumes "process_ligand w B i st = Inr st'" and "pending (tp st) = []"
    and "passes_filters B (read_descriptors (conversions w) (ligand_line w i))"
  shows "\<exists>gms1 todo.
      atom_types_loop (XS_TYPE_SIZE w) (num_probes w) (atom_types (parse_ligand w []))
        (grid_maps st) [] = Inr (gms1, todo)
    \<and> distinct todo
    \<and> (\<forall>t. t \<in> set todo \<longleftrightarrow>
            t \<in> set (atom_types (parse_ligand w [])) \<and> \<not> initialized (grid_maps st ! t))
    \<and> (\<forall>t<length (grid_maps st).
          gms1 ! t = (if t \<in> set todo then resize (num_probes w) (grid_maps st ! t)
                      else grid_maps st ! t))
    \<and> grid_maps st' = fold (grid_map_task (slab w) todo) [0..<fst (num_probes w)] gms1
    \<and> events (tp st') = events (tp st) @
        (if todo = [] then []
         else map Dispatched (gm_tasks (fst (num_probes w)) todo)
                @ map Completed (gm_tasks (fst (num_probes w)) todo))
        @ map Dispatched mc_tasks @ map Completed mc_tasks
    \<and> (\<forall>t. (\<exists>ts x. Dispatched (GmTask ts x) \<in>
                 set (drop (length (events (tp st))) (events (tp st'))) \<and> t \<in> set ts)
          \<longleftrightarrow> 0 < fst (num_probes w) \<and> t \<in> set (atom_types (parse_ligand w []))
                \<and> \<not> initialized (grid_maps st ! t))
    \<and> (\<forall>t\<in>set (atom_types (parse_ligand w [])).
          t < length (grid_maps st') \<and> initialized (grid_maps st' ! t))"
  using assms(1)
proof (cases rule: pl_cases)
  case skip
  with assms(3) show ?thesis by simp
next
  case (dock st1)
  let ?lig = "parse_ligand w []"
  from dock(3) obtain gms1 todo where loop:
    "atom_types_loop (XS_TYPE_SIZE w) (num_probes w) (atom_types ?lig) (grid_maps st) [] = Inr (gms1, todo)"
    and e: "todo = [] \<longrightarrow> st1 = st\<lparr>grid_maps := gms1\<rparr>"
    and n: "todo \<noteq> [] \<longrightarrow> st1 = st\<lparr>grid_maps := fold (grid_map_task (slab w) todo) [0..<fst (num_probes w)] gms1,
         tp := tp_sync (fold future_get (gm_tasks (fst (num_probes w)) todo)
                 (tp_run (gm_tasks (fst (num_probes w)) todo) (tp st)))\<rparr>"
    by (rule cgm_cases)
  from atl_todo [OF loop] have todo: "distinct todo"
    "set todo = {t \<in> set (atom_types ?lig). \<not> initialized (grid_maps st ! t)}"
    by auto
  from atl_bounds [OF loop] have bounds: "\<forall>t\<in>set (atom_types ?lig). t < length (grid_maps st)"
    by simp
  have gms1: "\<forall>t<length (grid_maps st).
          gms1 ! t = (if t \<in> set todo then resize (num_probes w) (grid_maps st ! t)
                      else grid_maps st ! t)"
    using atl_nth [OF loop] todo(2) by auto
  have gm: "grid_maps st' = fold (grid_map_task (slab w) todo) [0..<fst (num_probes w)] gms1"
    using e n dock(4) by (cases "todo = []") (simp_all add: gmts_nil)
  have ev: "events (tp st') = events (tp st) @
        (if todo = [] then []
         else map Dispatched (gm_tasks (fst (num_probes w)) todo)
                @ map Completed (gm_tasks (fst (num_probes w)) todo))
        @ map Dispatched mc_tasks @ map Completed mc_tasks"
    using pl_events [OF assms loop] by simp
  have disp: "\<forall>t. (\<exists>ts x. Dispatched (GmTask ts x) \<in>
                 set (drop (length (events (tp st))) (events (tp st'))) \<and> t \<in> set ts)
          \<longleftrightarrow> 0 < fst (num_probes w) \<and> t \<in> set (atom_types ?lig)
                \<and> \<not> initialized (grid_maps st ! t)"
    unfolding ev using gm_dispatched [of todo "fst (num_probes w)"] todo(2) by simp
  have len: "length (grid_maps st') = length (grid_maps st)"
    using pl_keep [OF assms(1)] by simp
  have init: "\<forall>t\<in>set (atom_types ?lig). t < length (grid_maps st') \<and> initialized (grid_maps st' ! t)"
  proof
    fix t assume t: "t \<in> set (atom_types ?lig)"
    with bounds have b: "t < length (grid_maps st)" by simp
    from atl_initialized [OF loop b] t have "initialized (gms1 ! t)" by simp
    then show "t < length (grid_maps st') \<and> initialized (grid_maps st' ! t)"
      using b len by (simp add: gm gmts_initialized)
  qed
  from loop todo gms1 gm ev disp init show ?thesis by blast
qed

lemma fl_split:
  assumes "for_ligands w B (is1 @ i # is2) st = Inr st4"
  obtains sa sb where "for_ligands w B is1 st = Inr sa" "process_ligand w B i sa = Inr sb"
    "for_ligands w B is2 sb = Inr st4"
  using assms by (auto simp: fl_append split: sum.splits)

lemma fl_schedule:
  assumes "for_ligands w B (is1 @ j # is2) s0 = Inr s4" and "pending (tp s0) = []"
    and "passes_filters B (read_descriptors (conversions w) (ligand_line w j))"
  shows "\<exists>sa sb gmsr todo.
      for_ligands w B is1 s0 = Inr sa \<and> process_ligand w B j sa = Inr sb
    \<and> for_ligands w B is2 sb = Inr s4
    \<and> atom_types_loop (XS_TYPE_SIZE w) (num_probes w) (atom_types (parse_ligand w []))
        (grid_maps sa) [] = Inr (gmsr, todo)
    \<and> distinct todo
    \<and> (\<forall>t. t \<in> set todo \<longleftrightarrow>
            t \<in> set (atom_types (parse_ligand w [])) \<and> \<not> initialized (grid_maps sa ! t))
    \<and> (\<forall>t<length (grid_maps sa).
          gmsr ! t = (if t \<in> set todo then resize (num_probes w) (grid_maps sa ! t)
                      else grid_maps sa ! t))
    \<and> grid_maps sb = fold (grid_map_task (slab w) todo) [0..<fst (num_probes w)] gmsr
    \<and> events (tp sb) = events (tp sa) @
        (if todo = [] then []
         else map Dispatched (gm_tasks (fst (num_probes w)) todo)
                @ map Completed (gm_tasks (fst (num_probes w)) todo))
        @ map Dispatched mc_tasks @ map Completed mc_tasks
    \<and> (\<forall>t. (\<exists>ts x. Dispatched (GmTask ts x) \<in>
                 set (drop (length (events (tp sa))) (events (tp sb))) \<and> t \<in> set ts)
          \<longleftrightarrow> 0 < fst (num_probes w) \<and> t \<in> set (atom_types (parse_ligand w []))
                \<and> \<not> initialized (grid_maps sa ! t))
    \<and> (\<forall>t\<in>set (atom_types (parse_ligand w [])).
          initialized (grid_maps sb ! t) \<and> grid_maps s4 ! t = grid_maps sb ! t)"
proof -
  from assms(1) obtain sa sb where s: "for_ligands w B is1 s0 = Inr sa"
    "process_ligand w B j sa = Inr sb" "for_ligands w B is2 sb = Inr s4"
    by (rule fl_split)
  from fl_pending [OF s(1) assms(2)] have p: "pending (tp sa) = []" .
  from pl_schedule [OF s(2) p assms(3)] obtain gmsr todo where r:
    "atom_types_loop (XS_TYPE_SIZE w) (num_probes w) (atom_types (parse_ligand w []))
        (grid_maps sa) [] = Inr (gmsr, todo)"
    "distinct todo"
    "\<forall>t. t \<in> set todo \<longleftrightarrow>
            t \<in> set (atom_types (parse_ligand w [])) \<and> \<not> initialized (grid_maps sa ! t)"
    "\<forall>t<length (grid_maps sa).
          gmsr ! t = (if t \<in> set todo then resize (num_probes w) (grid_maps sa ! t)
                      else grid_maps sa ! t)"
    "grid_maps sb = fold (grid_map_task (slab w) todo) [0..<fst (num_probes w)] gmsr"
    "events (tp sb) = events (tp sa) @
        (if todo = [] then []
         else map Dispatched (gm_tasks (fst (num_probes w)) todo)
                @ map Completed (gm_tasks (fst (num_probes w)) todo))
        @ map Dispatched mc_tasks @ map Completed mc_tasks"
    "\<forall>t. (\<exists>ts x. Dispatched (GmTask ts x) \<in>
                 set (drop (length (events (tp sa))) (events (tp sb))) \<and> t \<in> set ts)
          \<longleftrightarrow> 0 < fst (num_probes w) \<and> t \<in> set (atom_types (parse_ligand w []))
                \<and> \<not> initialized (grid_maps sa ! t)"
    "\<forall>t\<in>set (atom_types (parse_ligand w [])).
          t < length (grid_maps sb) \<and> initialized (grid_maps sb ! t)"
    by (elim exE conjE)
  from r(8) fl_keep [OF s(3)] have k: "\<forall>t\<in>set (atom_types (parse_ligand w [])).
          initialized (grid_maps sb ! t) \<and> grid_maps s4 ! t = grid_maps sb ! t"
    by simp
  from s r(1-7) k show ?thesis by blast
qed

subsection \<open>The claims on the ligands of a slice\<close>

text \<open>
  C1. A ligand of a slice that passes the filters is reached with the grid maps the
  ligands before it have left. The loop over its atom types puts a type into
  \<^verbatim>\<open>atom_types_to_populate\<close> if and only if it is a type of the ligand whose grid map is
  not initialized at that moment, and puts it there once; the maps of these types are
  resized and no other map is touched. When the batch is not empty, one grid map task is
  dispatched for each \<open>x\<close> below \<^verbatim>\<open>num_probes[0]\<close>, each for this batch, and has completed
  before the Monte Carlo tasks; when it is empty no grid map task is dispatched. So a
  grid map task is dispatched for a type if and only if the type is one of the ligand,
  its grid map is not initialized when the ligand is reached, and \<^verbatim>\<open>num_probes[0]\<close> is
  not zero. After the ligand every one of its types has an initialized grid map, the one
  it keeps to the end of the slice. A grid map that is initialized stays as it is
  through all the ligands that follow, and through a whole job: it is not resized,
  cleared or written to again. A ligand whose atom types all have initialized grid maps
  leaves the grid maps as they are and dispatches no grid map task: the pool sees nothing
  of it, or its Monte Carlo tasks only.
\<close>

theorem grid_maps_populated_once:
  "(atom_types_loop XS n ts gms [] = Inr (gms1, batch) \<longrightarrow>
      distinct batch \<and> (\<forall>t. t \<in> set batch \<longleftrightarrow> t \<in> set ts \<and> \<not> initialized (gms ! t)))
   \<and> (for_ligands w B js st = Inr st' \<and> t < length (grid_maps st) \<and> initialized (grid_maps st ! t) \<longrightarrow>
        grid_maps st' ! t = grid_maps st ! t)
   \<and> (execute_job w p s fs gms0 P = Inr (fs', gms', P') \<and> u < length gms0 \<and> initialized (gms0 ! u) \<longrightarrow>
        gms' ! u = gms0 ! u)
   \<and> (process_ligand w B i st = Inr st2 \<and> pending (tp st) = [] \<and>
        (\<forall>t\<in>set (atom_types (parse_ligand w [])). initialized (grid_maps st ! t)) \<longrightarrow>
        grid_maps st2 = grid_maps st \<and>
        (events (tp st2) = events (tp st) \<or>
         events (tp st2) = events (tp st) @ map Dispatched mc_tasks @ map Completed mc_tasks))
   \<and> (for_ligands w B (is1 @ j # is2) s0 = Inr s4 \<and> pending (tp s0) = [] \<and>
        passes_filters B (read_descriptors (conversions w) (ligand_line w j)) \<longrightarrow>
        (\<exists>sa sb gmsr todo.
            for_ligands w B is1 s0 = Inr sa \<and> process_ligand w B j sa = Inr sb
          \<and> for_ligands w B is2 sb = Inr s4
          \<and> atom_types_loop (XS_TYPE_SIZE w) (num_probes w) (atom_types (parse_ligand w []))
              (grid_maps sa) [] = Inr (gmsr, todo)
          \<and> distinct todo
          \<and> (\<forall>t. t \<in> set todo \<longleftrightarrow>
                  t \<in> set (atom_types (parse_ligand w [])) \<and> \<not> initialized (grid_maps sa ! t))
          \<and> (\<forall>t<length (grid_maps sa).
                gmsr ! t = (if t \<in> set todo then resize (num_probes w) (grid_maps sa ! t)
                            else grid_maps sa ! t))
          \<and> grid_maps sb = fold (grid_map_task (slab w) todo) [0..<fst (num_probes w)] gmsr
          \<and> events (tp sb) = events (tp sa) @
              (if todo = [] then []
               else map Dispatched (gm_tasks (fst (num_probes w)) todo)
                      @ map Completed (gm_tasks (fst (num_probes w)) todo))
              @ map Dispatched mc_tasks @ map Completed mc_tasks
          \<and> (\<forall>t. (\<exists>ts x. Dispatched (GmTask ts x) \<in>
                       set (drop (length (events (tp sa))) (events (tp sb))) \<and> t \<in> set ts)
                \<longleftrightarrow> 0 < fst (num_probes w) \<and> t \<in> set (atom_types (parse_ligand w []))
                      \<and> \<not> initialized (grid_maps sa ! t))
          \<and> (\<forall>t\<in>set (atom_types (parse_ligand w [])).
                initialized (grid_maps sb ! t) \<and> grid_maps s4 ! t = grid_maps sb ! t)))"
proof (intro conjI impI)
  assume "atom_types_loop XS n ts gms [] = Inr (gms1, batch)"
  from atl_todo [OF this] show "distinct batch" by auto
  from atl_todo [OF \<open>atom_types_loop XS n ts gms [] = Inr (gms1, batch)\<close>]
  show "\<forall>t. t \<in> set batch \<longleftrightarrow> t \<in> set ts \<and> \<not> initialized (gms ! t)" by auto
next
  assume "for_ligands w B js st = Inr st' \<and> t < length (grid_maps st) \<and> initialized (grid_maps st ! t)"
  with fl_keep [of w B js st st'] show "grid_maps st' ! t = grid_maps st ! t" by simp
next
  assume "execute_job w p s fs gms0 P = Inr (fs', gms', P') \<and> u < length gms0 \<and> initialized (gms0 ! u)"
  then show "gms' ! u = gms0 ! u" by (auto intro: execute_job_keep)
next
  assume *: "process_ligand w B i st = Inr st2 \<and> pending (tp st) = [] \<and>
        (\<forall>t\<in>set (atom_types (parse_ligand w [])). initialized (grid_maps st ! t))"
  with pl_all_initialized [of w B i st st2] show "grid_maps st2 = grid_maps st" by simp
  from * pl_all_initialized [of w B i st st2]
  show "events (tp st2) = events (tp st) \<or>
         events (tp st2) = events (tp st) @ map Dispatched mc_tasks @ map Completed mc_tasks"
    by simp
next
  assume "for_ligands w B (is1 @ j # is2) s0 = Inr s4 \<and> pending (tp s0) = [] \<and>
        passes_filters B (read_descriptors (conversions w) (ligand_line w j))"
  then have "for_ligands w B (is1 @ j # is2) s0 = Inr s4" "pending (tp s0) = []"
    "passes_filters B (read_descriptors (conversions w) (ligand_line w j))"
    by simp_all
  then show "\<exists>sa sb gmsr todo.
            for_ligands w B is1 s0 = Inr sa \<and> process_ligand w B j sa = Inr sb
          \<and> for_ligands w B is2 sb = Inr s4
          \<and> atom_types_loop (XS_TYPE_SIZE w) (num_probes w) (atom_types (parse_ligand w []))
              (grid_maps sa) [] = Inr (gmsr, todo)
          \<and> distinct todo
          \<and> (\<forall>t. t \<in> set todo \<longleftrightarrow>
                  t \<in> set (atom_types (parse_ligand w [])) \<and> \<not> initialized (grid_maps sa ! t))
          \<and> (\<forall>t<length (grid_maps sa).
                gmsr ! t = (if t \<in> set todo then resize (num_probes w) (grid_maps sa ! t)
                            else grid_maps sa ! t))
          \<and> grid_maps sb = fold (grid_map_task (slab w) todo) [0..<fst (num_probes w)] gmsr
          \<and> events (tp sb) = events (tp sa) @
              (if todo = [] then []
               else map Dispatched (gm_tasks (fst (num_probes w)) todo)
                      @ map Completed (gm_tasks (fst (num_probes w)) todo))
              @ map Dispatched mc_tasks @ map Completed mc_tasks
          \<and> (\<forall>t. (\<exists>ts x. Dispatched (GmTask ts x) \<in>
                       set (drop (length (events (tp sa))) (events (tp sb))) \<and> t \<in> set ts)
                \<longleftrightarrow> 0 < fst (num_probes w) \<and> t \<in> set (atom_types (parse_ligand w []))
                      \<and> \<not> initialized (grid_maps sa ! t))
          \<and> (\<forall>t\<in>set (atom_types (parse_ligand w [])).
                initialized (grid_maps sb ! t) \<and> grid_maps s4 ! t = grid_maps sb ! t)"
    by (rule fl_schedule)
qed

theorem grid_maps_populated_once_witness:
  "atom_types_loop 3 (2, 1, 1) [0, 2] (replicate 3 Uninitialized) [] =
     Inr ([Initialized (2, 1, 1) [0, 0], Uninitialized, Initialized (2, 1, 1) [0, 0]], [0, 2])
   \<and> distinct [0, 2 :: nat]
   \<and> (\<forall>t. t \<in> set [0, 2] \<longleftrightarrow> t \<in> set [0, 2] \<and> \<not> initialized (replicate 3 Uninitialized ! t))
   \<and> for_ligands sample_world sample_bounds [1, 2] sample_docked = Inr sample_final
   \<and> 0 < length (grid_maps sample_docked) \<and> initialized (grid_maps sample_docked ! 0)
   \<and> grid_maps sample_final ! 0 = grid_maps sample_docked ! 0
   \<and> execute_job quiet_world Map.empty 0 Map.empty (grid_maps sample_docked) (tp sample_docked) =
       Inr ([csv_path \<mapsto> [CHR 0x0A]], grid_maps sample_docked, tp sample_docked)
   \<and> process_ligand sample_world sample_bounds 2 sample_docked = Inr sample_final
   \<and> pending (tp sample_docked) = []
   \<and> atom_types (parse_ligand sample_world []) = [0, 2]
   \<and> initialized (grid_maps sample_docked ! 2)
   \<and> grid_maps sample_final = grid_maps sample_docked
   \<and> events (tp sample_final) =
       events (tp sample_docked) @ map Dispatched mc_tasks @ map Completed mc_tasks
   \<and> for_ligands sample_world sample_bounds ([] @ 0 # [1, 2]) sample_state = Inr sample_final
   \<and> pending (tp sample_state) = []
   \<and> passes_filters sample_bounds
       (read_descriptors (conversions sample_world) (ligand_line sample_world 0))
   \<and> process_ligand sample_world sample_bounds 0 sample_state = Inr sample_docked
   \<and> atom_types_loop (XS_TYPE_SIZE sample_world) (num_probes sample_world)
       (atom_types (parse_ligand sample_world [])) (grid_maps sample_state) [] =
       Inr ([Initialized (2, 1, 1) [0, 0], Uninitialized, Initialized (2, 1, 1) [0, 0]], [0, 2])
   \<and> grid_maps sample_state = [Uninitialized, Uninitialized, Uninitialized]
   \<and> events (tp sample_docked) =
       events (tp sample_state)
       @ map Dispatched [GmTask [0, 2] 0, GmTask [0, 2] 1]
       @ map Completed [GmTask [0, 2] 0, GmTask [0, 2] 1]
       @ map Dispatched mc_tasks @ map Completed mc_tasks
   \<and> grid_maps sample_docked =
       fold (grid_map_task (slab sample_world) [0, 2]) [0..<fst (num_probes sample_world)]
         [Initialized (2, 1, 1) [0, 0], Uninitialized, Initialized (2, 1, 1) [0, 0]]
   \<and> grid_maps sample_docked =
       [Initialized (2, 1, 1) [1, 1], Uninitialized, Initialized (2, 1, 1) [1, 1]]
   \<and> (\<forall>t. (\<exists>ts x. Dispatched (GmTask ts x) \<in>
               set (drop (length (events (tp sample_state))) (events (tp sample_docked)))
               \<and> t \<in> set ts) \<longleftrightarrow> t = 0 \<or> t = 2)"
proof -
  have a: "atom_types_loop 3 (2, 1, 1) [0, 2] (replicate 3 Uninitialized) [] =
     Inr ([Initialized (2, 1, 1) [0, 0], Uninitialized, Initialized (2, 1, 1) [0, 0]], [0, 2])"
    by (simp add: numeral_3_eq_3 numeral_2_eq_2)
  have b: "for_ligands sample_world sample_bounds [1, 2] sample_docked = Inr sample_final"
    by (simp add: sample_step_1 sample_step_2)
  have c: "0 < length (grid_maps sample_docked) \<and> initialized (grid_maps sample_docked ! 0)"
    by (simp add: sample_docked_def)
  have d: "process_ligand sample_world sample_bounds 2 sample_docked = Inr sample_final"
    by (rule sample_step_2)
  have e: "pending (tp sample_docked) = []"
    by (simp add: sample_docked_def)
  have f: "\<forall>t\<in>set (atom_types (parse_ligand sample_world [])). initialized (grid_maps sample_docked ! t)"
    by (simp add: sample_docked_def sample_world_def)
  have g: "events (tp sample_final) =
       events (tp sample_docked) @ map Dispatched mc_tasks @ map Completed mc_tasks"
    by (simp add: sample_final_def)
  have h: "atom_types (parse_ligand sample_world []) = [0, 2]"
    "initialized (grid_maps sample_docked ! 2)"
    by (simp_all add: sample_docked_def sample_world_def)
  have j: "execute_job quiet_world Map.empty 0 Map.empty (grid_maps sample_docked) (tp sample_docked) =
       Inr ([csv_path \<mapsto> [CHR 0x0A]], grid_maps sample_docked, tp sample_docked)"
    by (rule quiet_job)
  have l: "for_ligands sample_world sample_bounds ([] @ 0 # [1, 2]) sample_state = Inr sample_final"
    by (simp add: sample_step_0 sample_step_1 sample_step_2)
  have m: "pending (tp sample_state) = []"
    by (simp add: sample_state_def new_thread_pool_def)
  have n: "passes_filters sample_bounds
       (read_descriptors (conversions sample_world) (ligand_line sample_world 0))"
    by (simp add: sample_passes_iff)
  have o: "process_ligand sample_world sample_bounds 0 sample_state = Inr sample_docked"
    by (rule sample_step_0)
  have q: "atom_types_loop (XS_TYPE_SIZE sample_world) (num_probes sample_world)
       (atom_types (parse_ligand sample_world [])) (grid_maps sample_state) [] =
       Inr ([Initialized (2, 1, 1) [0, 0], Uninitialized, Initialized (2, 1, 1) [0, 0]], [0, 2])"
    by (simp add: sample_world_def sample_state_def numeral_3_eq_3 numeral_2_eq_2)
  have r: "grid_maps sample_state = [Uninitialized, Uninitialized, Uninitialized]"
    "grid_maps sample_docked =
       [Initialized (2, 1, 1) [1, 1], Uninitialized, Initialized (2, 1, 1) [1, 1]]"
    by (simp_all add: sample_state_def sample_docked_def numeral_3_eq_3)
  have v: "gm_tasks (fst (num_probes sample_world)) [0, 2] = [GmTask [0, 2] 0, GmTask [0, 2] 1]"
    by (simp add: gm_tasks_def sample_world_def numeral_2_eq_2)
  have x: "\<And>t. 0 < fst (num_probes sample_world) \<and> t \<in> set (atom_types (parse_ligand sample_world []))
       \<and> \<not> initialized (grid_maps sample_state ! t) \<longleftrightarrow> t = 0 \<or> t = 2"
    by (auto simp: sample_world_def sample_state_def)
  note T = grid_maps_populated_once [where XS = 3 and n = "(2, 1, 1)" and ts = "[0, 2]"
      and gms = "replicate 3 Uninitialized"
      and ?gms1.0 = "[Initialized (2, 1, 1) [0, 0], Uninitialized, Initialized (2, 1, 1) [0, 0]]"
      and batch = "[0, 2]" and w = sample_world and B = sample_bounds and js = "[1, 2]"
      and st = sample_docked and st' = sample_final and t = 0 and i = 2 and ?st2.0 = sample_final
      and ?is1.0 = "[]" and j = 0 and ?is2.0 = "[1, 2]" and ?s0.0 = sample_state
      and ?s4.0 = sample_final]
  note T1 = T [THEN conjunct1]
  note T2 = T [THEN conjunct2, THEN conjunct1]
  note T4 = T [THEN conjunct2, THEN conjunct2, THEN conjunct2, THEN conjunct1]
  note T5 = T [THEN conjunct2, THEN conjunct2, THEN conjunct2, THEN conjunct2]
  from T1 a have k1: "distinct [0, 2 :: nat]"
    "\<forall>t. t \<in> set [0, 2] \<longleftrightarrow> t \<in> set [0, 2] \<and> \<not> initialized (replicate 3 Uninitialized ! t)"
    by blast+
  from T2 b c have k2: "grid_maps sample_final ! 0 = grid_maps sample_docked ! 0"
    by blast
  from T4 d e f have k3: "grid_maps sample_final = grid_maps sample_docked"
    by blast
  note k = k1 k2 k3
  from T5 l m n obtain sa sb gmsr todo where y:
    "for_ligands sample_world sample_bounds [] sample_state = Inr sa"
    "process_ligand sample_world sample_bounds 0 sa = Inr sb"
    "atom_types_loop (XS_TYPE_SIZE sample_world) (num_probes sample_world)
       (atom_types (parse_ligand sample_world [])) (grid_maps sa) [] = Inr (gmsr, todo)"
    "grid_maps sb = fold (grid_map_task (slab sample_world) todo)
       [0..<fst (num_probes sample_world)] gmsr"
    "events (tp sb) = events (tp sa) @
        (if todo = [] then []
         else map Dispatched (gm_tasks (fst (num_probes sample_world)) todo)
                @ map Completed (gm_tasks (fst (num_probes sample_world)) todo))
        @ map Dispatched mc_tasks @ map Completed mc_tasks"
    "\<forall>t. (\<exists>ts x. Dispatched (GmTask ts x) \<in>
                 set (drop (length (events (tp sa))) (events (tp sb))) \<and> t \<in> set ts)
          \<longleftrightarrow> 0 < fst (num_probes sample_world)
                \<and> t \<in> set (atom_types (parse_ligand sample_world []))
                \<and> \<not> initialized (grid_maps sa ! t)"
    by blast
  from y(1) have sa: "sa = sample_state" by simp
  from y(2) o have sb: "sb = sample_docked" by (simp add: sa)
  from y(3) q have gt: "gmsr = [Initialized (2, 1, 1) [0, 0], Uninitialized, Initialized (2, 1, 1) [0, 0]]"
    "todo = [0, 2]"
    by (simp_all add: sa)
  from y(5) have z1: "events (tp sample_docked) =
       events (tp sample_state)
       @ map Dispatched [GmTask [0, 2] 0, GmTask [0, 2] 1]
       @ map Completed [GmTask [0, 2] 0, GmTask [0, 2] 1]
       @ map Dispatched mc_tasks @ map Completed mc_tasks"
    unfolding sa sb gt v by simp
  from y(4) have z2: "grid_maps sample_docked =
       fold (grid_map_task (slab sample_world) [0, 2]) [0..<fst (num_probes sample_world)]
         [Initialized (2, 1, 1) [0, 0], Uninitialized, Initialized (2, 1, 1) [0, 0]]"
    unfolding sa sb gt .
  from y(6) have z3: "\<forall>t. (\<exists>ts x. Dispatched (GmTask ts x) \<in>
               set (drop (length (events (tp sample_state))) (events (tp sample_docked)))
               \<and> t \<in> set ts) \<longleftrightarrow> t = 0 \<or> t = 2"
    unfolding sa sb x .
  from a b c d e g h j k l m n o q r z1 z2 z3 show ?thesis
    by blast
qed

text \<open>
  C8. When a ligand makes grid maps, the events of the pool for this ligand are, in this
  order: the grid map tasks of the batch dispatched, each of them completed (the future
  of each is gotten, then the pool is synced), and only then the Monte Carlo tasks
  dispatched, and completed. So every grid map task of the batch has completed before
  the first Monte Carlo task of the ligand is dispatched.
\<close>

theorem grid_maps_complete_before_monte_carlo:
  assumes "process_ligand w B i st = Inr st'"
    and "pending (tp st) = []"
    and "passes_filters B (read_descriptors (conversions w) (ligand_line w i))"
    and "atom_types_loop (XS_TYPE_SIZE w) (num_probes w) (atom_types (parse_ligand w []))
           (grid_maps st) [] = Inr (gms, batch)"
    and "batch \<noteq> []"
  shows "events (tp st') =
           events (tp st)
           @ map Dispatched (gm_tasks (fst (num_probes w)) batch)
           @ map Completed (gm_tasks (fst (num_probes w)) batch)
           @ map Dispatched mc_tasks @ map Completed mc_tasks
         \<and> pending (tp st') = []"
  using pl_events [OF assms(1-4)] assms(5) by simp

theorem grid_maps_complete_before_monte_carlo_witness:
  "process_ligand sample_world sample_bounds 0 sample_state = Inr sample_docked
   \<and> pending (tp sample_state) = []
   \<and> passes_filters sample_bounds
       (read_descriptors (conversions sample_world) (ligand_line sample_world 0))
   \<and> atom_types_loop (XS_TYPE_SIZE sample_world) (num_probes sample_world)
       (atom_types (parse_ligand sample_world [])) (grid_maps sample_state) [] =
       Inr ([Initialized (2, 1, 1) [0, 0], Uninitialized, Initialized (2, 1, 1) [0, 0]], [0, 2])
   \<and> [0, 2 :: nat] \<noteq> []
   \<and> events (tp sample_docked) =
       events (tp sample_state)
       @ map Dispatched [GmTask [0, 2] 0, GmTask [0, 2] 1]
       @ map Completed [GmTask [0, 2] 0, GmTask [0, 2] 1]
       @ map Dispatched mc_tasks @ map Completed mc_tasks
   \<and> pending (tp sample_docked) = []"
proof -
  have a: "process_ligand sample_world sample_bounds 0 sample_state = Inr sample_docked"
    by (rule sample_step_0)
  have b: "pending (tp sample_state) = []"
    by (simp add: sample_state_def new_thread_pool_def)
  have c: "passes_filters sample_bounds
       (read_descriptors (conversions sample_world) (ligand_line sample_world 0))"
    by (simp add: sample_passes_iff)
  have d: "atom_types_loop (XS_TYPE_SIZE sample_world) (num_probes sample_world)
       (atom_types (parse_ligand sample_world [])) (grid_maps sample_state) [] =
       Inr ([Initialized (2, 1, 1) [0, 0], Uninitialized, Initialized (2, 1, 1) [0, 0]], [0, 2])"
    by (simp add: sample_world_def sample_state_def numeral_3_eq_3 numeral_2_eq_2)
  have e: "[0, 2 :: nat] \<noteq> []" by simp
  have f: "gm_tasks (fst (num_probes sample_world)) [0, 2] = [GmTask [0, 2] 0, GmTask [0, 2] 1]"
    by (simp add: gm_tasks_def sample_world_def numeral_2_eq_2)
  from grid_maps_complete_before_monte_carlo [OF a b c d e] f a b c d e
  show ?thesis by (simp only: simp_thms)
qed

text \<open>
  C7. A ligand passes the filters if and only if each of its nine descriptor fields lies
  between its lower and its upper bound, both included; a ligand of weight 399.9 does
  not pass under the lower bound 400. A ligand that does not pass is skipped: the step
  leaves the grid maps, the pool and the CSV stream as they are, so no Monte Carlo task
  is dispatched and no line is written. A ligand that passes goes on to docking: when the
  step returns, its Monte Carlo tasks have been dispatched.
\<close>

theorem filters_decide_docking:
  "(passes_filters B d \<longleftrightarrow> (\<forall>(lb, v, ub)\<in>set (descriptor_ranges B d). lb \<le> v \<and> v \<le> ub))
   \<and> (mwt d = 3999 / 10 \<and> mwt_lb B = 400 \<longrightarrow> \<not> passes_filters B d)
   \<and> (\<not> passes_filters B (read_descriptors (conversions w) (ligand_line w i)) \<longrightarrow>
        process_ligand w B i st = Inr st)
   \<and> (passes_filters B (read_descriptors (conversions w) (ligand_line w i)) \<and>
        pending (tp st) = [] \<and> process_ligand w B i st = Inr st' \<longrightarrow>
        (\<exists>es. events (tp st') =
                events (tp st) @ es @ map Dispatched mc_tasks @ map Completed mc_tasks))"
proof (intro conjI impI)
  show "passes_filters B d \<longleftrightarrow> (\<forall>(lb, v, ub)\<in>set (descriptor_ranges B d). lb \<le> v \<and> v \<le> ub)"
    by (simp add: passes_filters_def descriptor_ranges_def conj_ac)
next
  assume "mwt d = 3999 / 10 \<and> mwt_lb B = 400"
  then show "\<not> passes_filters B d" by (simp add: passes_filters_def)
next
  assume "\<not> passes_filters B (read_descriptors (conversions w) (ligand_line w i))"
  then show "process_ligand w B i st = Inr st" by (rule pl_skip)
next
  assume *: "passes_filters B (read_descriptors (conversions w) (ligand_line w i)) \<and>
        pending (tp st) = [] \<and> process_ligand w B i st = Inr st'"
  then have pl: "process_ligand w B i st = Inr st'" by simp
  from pl obtain st1 where "create_grid_maps w (parse_ligand w []) st = Inr st1"
    using * by (cases rule: pl_cases) auto
  then obtain gms batch where
    "atom_types_loop (XS_TYPE_SIZE w) (num_probes w) (atom_types (parse_ligand w []))
           (grid_maps st) [] = Inr (gms, batch)"
    by (rule cgm_cases)
  from pl_events [OF pl _ _ this] * show
    "\<exists>es. events (tp st') = events (tp st) @ es @ map Dispatched mc_tasks @ map Completed mc_tasks"
    by auto
qed

theorem filters_decide_docking_witness:
  "mwt (read_descriptors (conversions sample_world) (ligand_line sample_world 1)) = 3999 / 10
   \<and> mwt_lb sample_bounds = 400
   \<and> \<not> passes_filters sample_bounds
         (read_descriptors (conversions sample_world) (ligand_line sample_world 1))
   \<and> process_ligand sample_world sample_bounds 1 sample_state = Inr sample_state
   \<and> passes_filters sample_bounds
       (read_descriptors (conversions sample_world) (ligand_line sample_world 0))
   \<and> descriptor_ranges sample_bounds
         (read_descriptors (conversions sample_world) (ligand_line sample_world 0)) =
       [(400, 450, 500), (- 1, 251 / 100, 6), (- 50, - 10, 50), (- 150, - 20, 0), (1, 2, 6),
        (1, 4, 10), (20, 39, 80), (2, 3, 9), (2, 5, 9)]
   \<and> pending (tp sample_state) = []
   \<and> process_ligand sample_world sample_bounds 0 sample_state = Inr sample_docked
   \<and> (\<exists>es. events (tp sample_docked) =
          events (tp sample_state) @ es @ map Dispatched mc_tasks @ map Completed mc_tasks)"
proof -
  have a: "mwt (read_descriptors (conversions sample_world) (ligand_line sample_world 1)) = 3999 / 10"
    by (simp add: sample_world_def sample_descriptors_light)
  have b: "mwt_lb sample_bounds = 400"
    by (simp add: sample_bounds_eq)
  have c: "passes_filters sample_bounds
       (read_descriptors (conversions sample_world) (ligand_line sample_world 0))"
    by (simp add: sample_passes_iff)
  have d: "pending (tp sample_state) = []"
    by (simp add: sample_state_def new_thread_pool_def)
  have e: "process_ligand sample_world sample_bounds 0 sample_state = Inr sample_docked"
    by (rule sample_step_0)
  note T1 = filters_decide_docking [of sample_bounds
      "read_descriptors (conversions sample_world) (ligand_line sample_world 1)"
      sample_world 1 sample_state sample_state]
  note T0 = filters_decide_docking [of sample_bounds
      "read_descriptors (conversions sample_world) (ligand_line sample_world 0)"
      sample_world 0 sample_state sample_docked]
  from T1 a b have f: "\<not> passes_filters sample_bounds
         (read_descriptors (conversions sample_world) (ligand_line sample_world 1))"
    by blast
  with T1 have g: "process_ligand sample_world sample_bounds 1 sample_state = Inr sample_state"
    by blast
  from T0 c have h: "\<forall>(lb, v, ub)\<in>set (descriptor_ranges sample_bounds
          (read_descriptors (conversions sample_world) (ligand_line sample_world 0))).
          lb \<le> v \<and> v \<le> ub"
    by blast
  from T0 c d e have k: "\<exists>es. events (tp sample_docked) =
          events (tp sample_state) @ es @ map Dispatched mc_tasks @ map Completed mc_tasks"
    by blast
  have m: "descriptor_ranges sample_bounds
         (read_descriptors (conversions sample_world) (ligand_line sample_world 0)) =
       [(400, 450, 500), (- 1, 251 / 100, 6), (- 50, - 10, 50), (- 150, - 20, 0), (1, 2, 6),
        (1, 4, 10), (20, 39, 80), (2, 3, 9), (2, 5, 9)]"
    by (simp add: descriptor_ranges_def sample_world_def sample_descriptors sample_bounds_eq)
  from a b c d e f g k m show ?thesis by (simp only: simp_thms)
qed

text \<open>
  C4, as amended. The CSV file of a job begins with the newline written when the stream
  is set up. After it comes one line for every ligand of the slice that passes the
  filters and has a merged result list that is not empty, in the order of the library,
  and nothing else: the identifier of the ligand, a comma, a number in fixed notation
  with 3 fractional digits, and a newline. The number is what the read of
  \<^verbatim>\<open>best_result.e_nd\<close> yields after \<^verbatim>\<open>results.clear()\<close>: the product of \<^verbatim>\<open>f\<close> and
  the flexibility penalty factor is in the first result before the container is cleared,
  and is no longer read from it afterwards.
\<close>

theorem csv_one_line_per_survivor:
  assumes "execute_job w p s fs gms P = Inr (fs', gms', P')"
    and "slice_range s = Inr (start_lig, end_lig)"
    and "results \<noteq> []"
  shows "fs' csv_path = Some ([CHR 0x0A] @ concat (map (csv_line w)
           (filter (survives w (job_bounds main_defaults p)) [start_lig..<end_lig])))
    \<and> read_e_nd v (adjust_best lig results) 0 =
          result_f (results ! 0) * flexibility_penalty_factor lig
    \<and> read_e_nd v (ptr_vector_clear (adjust_best lig results)) 0 = v"
  using execute_job_csv [OF assms(1,2)] assms(3)
  by (simp add: read_e_nd_def ptr_vector_clear_def adjust_best_def)

theorem csv_one_line_per_survivor_witness:
  "execute_job sample_world Map.empty 0 Map.empty (replicate 3 Uninitialized) new_thread_pool =
     Inr ([csv_path \<mapsto> written (csv sample_final)], grid_maps sample_final, tp sample_final)
   \<and> slice_range 0 = Inr (0, 121712)
   \<and> [\<lparr>result_f = - 9, result_e_nd = 0\<rparr>] \<noteq> []
   \<and> filter (survives sample_world (job_bounds main_defaults Map.empty)) [0..<121712] = [0]
   \<and> [csv_path \<mapsto> written (csv sample_final)] csv_path =
       Some ([CHR 0x0A] @ ''00000007,0.000'' @ [CHR 0x0A])
   \<and> read_e_nd 0 (adjust_best (parse_ligand sample_world [])
         [\<lparr>result_f = - 9, result_e_nd = 0\<rparr>]) 0 = - 18
   \<and> read_e_nd 0 (ptr_vector_clear (adjust_best (parse_ligand sample_world [])
         [\<lparr>result_f = - 9, result_e_nd = 0\<rparr>])) 0 = 0"
proof -
  have 1: "execute_job sample_world Map.empty 0 Map.empty (replicate 3 Uninitialized) new_thread_pool =
     Inr ([csv_path \<mapsto> written (csv sample_final)], grid_maps sample_final, tp sample_final)"
    by (rule sample_job)
  have 2: "slice_range 0 = Inr (0, 121712)"
    by (simp add: slice_range_def slices_at_def slices_def)
  have 3: "filter (survives sample_world (job_bounds main_defaults Map.empty)) [0..<121712] = [0]"
    using sample_survivors [of 121712] by (simp add: sample_bounds_def del: upt_rec_numeral)
  have 4: "[\<lparr>result_f = - 9, result_e_nd = 0\<rparr>] \<noteq> []"
    by simp
  note T = csv_one_line_per_survivor [OF 1 2 4, of 0 "parse_ligand sample_world []"]
  from T 3 have 5: "[csv_path \<mapsto> written (csv sample_final)] csv_path =
       Some ([CHR 0x0A] @ ''00000007,0.000'' @ [CHR 0x0A])"
    by (simp add: sample_csv_line del: upt_rec_numeral)
  from T have 6: "read_e_nd 0 (adjust_best (parse_ligand sample_world [])
         [\<lparr>result_f = - 9, result_e_nd = 0\<rparr>]) 0 = - 18"
    "read_e_nd 0 (ptr_vector_clear (adjust_best (parse_ligand sample_world [])
         [\<lparr>result_f = - 9, result_e_nd = 0\<rparr>])) 0 = 0"
    by (simp_all add: sample_world_def del: upt_rec_numeral)
  from 1 2 3 4 5 6 show ?thesis
    by (simp only: simp_thms)
qed

text \<open>
  C4, as the specification states it: in a job in which no ligand survives the file
  should hold no line, and it holds the newline.
\<close>

theorem csv_leading_newline_counterexample:
  "job_csv (execute_job quiet_world Map.empty 0 Map.empty (replicate 3 Uninitialized) new_thread_pool)
     = Some [CHR 0x0A]
   \<and> concat (map (csv_line quiet_world)
        (filter (survives quiet_world (job_bounds main_defaults Map.empty)) [0..<121712])) = []"
  by (simp add: quiet_job job_csv_def quiet_survivors sample_bounds_def [symmetric] del: upt_rec_numeral)

text \<open>
  C10. When the CSV file exists at the start of a job, the block that opens it for reading
  takes nothing from it: the loop starts from \<^verbatim>\<open>start_lig\<close>. The output stream then
  truncates the file, and the job ends as it would have ended had the file not existed:
  nothing of the previous contents is left.
\<close>

theorem old_csv_discarded:
  "skip_screened (fs(csv_path \<mapsto> old)) start_lig = start_lig
   \<and> execute_job w p s (fs(csv_path \<mapsto> old)) gms P = execute_job w p s (fs(csv_path := None)) gms P"
  by (simp add: skip_screened_eq execute_job_old_csv)

theorem old_csv_discarded_witness:
  "skip_screened [csv_path \<mapsto> ''00000001,-7.000''] 0 = 0
   \<and> execute_job sample_world Map.empty 0 [csv_path \<mapsto> ''00000001,-7.000'']
        (replicate 3 Uninitialized) new_thread_pool =
      Inr ([csv_path \<mapsto> [CHR 0x0A] @ ''00000007,0.000'' @ [CHR 0x0A]], grid_maps sample_final,
           tp sample_final)"
  using old_csv_discarded [of "Map.empty" "''00000001,-7.000''" 0 sample_world Map.empty 0
      "replicate 3 Uninitialized" new_thread_pool]
  by (simp add: sample_job) (simp add: sample_final_def sample_docked_def)

end
